theory Spec2Isabelle
  imports Main "HOL-Library.Word"
begin

section \<open>Python values shared by both toolkits\<close>

text \<open>
  Exceptions that leave a function are values: a function that can raise returns
  \<open>py_error + 'a\<close>, with \<open>Inl\<close> the exception.
\<close>

datatype py_error = ValueError | IndexError | RaisedBy string

text \<open>
  The result of a call into the Modbus client or the socket library: the call either
  raises an exception (a subclass of \<open>Exception\<close>, kept as its message \<open>str(e)\<close>)
  or returns a value.
\<close>

datatype 'a outcome = Raises string | Returns 'a

text \<open>
  \<open>range(start, stop, step)\<close>: a zero step raises \<open>ValueError\<close>; otherwise the
  sequence has the length CPython computes for it and its i-th element is
  \<open>start + i * step\<close>.
\<close>

definition range_len :: "int \<Rightarrow> int \<Rightarrow> int \<Rightarrow> nat" where
  "range_len start stop step =
     (if 0 < step \<and> start < stop then nat ((stop - start - 1) div step + 1)
      else if step < 0 \<and> stop < start then nat ((start - stop - 1) div (- step) + 1)
      else 0)"

definition range_list :: "int \<Rightarrow> int \<Rightarrow> int \<Rightarrow> int list" where
  "range_list start stop step =
     map (\<lambda>i. start + int i * step) [0..<range_len start stop step]"

definition py_range :: "int \<Rightarrow> int \<Rightarrow> int \<Rightarrow> py_error + int list" where
  "py_range start stop step =
     (if step = 0 then Inl ValueError else Inr (range_list start stop step))"

text \<open>
  A \<open>dict\<close> with string keys keeps insertion order: an association list in which
  assigning to a present key replaces its value in place and assigning to a new key
  appends.
\<close>

fun dict_set :: "(string \<times> 'v) list \<Rightarrow> string \<Rightarrow> 'v \<Rightarrow> (string \<times> 'v) list" where
  "dict_set [] k v = [(k, v)]"
| "dict_set ((k', v') # d) k v =
     (if k' = k then (k, v) # d else (k', v') # dict_set d k v)"

definition keys :: "(string \<times> 'v) list \<Rightarrow> string list" where
  "keys d = map fst d"

text \<open>\<open>str(n)\<close> for an integer: decimal digits, with a minus sign when negative.\<close>

definition digit_char :: "nat \<Rightarrow> char" where
  "digit_char d = ''0123456789'' ! d"

fun str_nat :: "nat \<Rightarrow> string" where
  "str_nat n = (if n < 10 then [digit_char n] else str_nat (n div 10) @ [digit_char (n mod 10)])"

declare str_nat.simps [simp del]

definition str_int :: "int \<Rightarrow> string" where
  "str_int i = (if i < 0 then CHR ''-'' # str_nat (nat (- i)) else str_nat (nat i))"

section \<open>The Modbus client\<close>

text \<open>
  A response object of the client library, with the attributes the toolkits read:
  \<open>isError()\<close>, \<open>registers\<close>, \<open>bits\<close> and \<open>information\<close> (object id to value,
  in the order the device sent them; the values are taken in their string form).
\<close>

record response =
  isError :: bool
  registers :: "int list"
  bits :: "bool list"
  information :: "(int \<times> string) list"

datatype call =
    Read_coils int int
  | Read_holding_registers int int
  | Read_input_registers int int
  | Write_registers int "int list"
  | Read_device_information

text \<open>
  A device answers a call depending on the calls the session has made so far. The
  session state of a client is that history.
\<close>

type_synonym device = "call list \<Rightarrow> call \<Rightarrow> response outcome"

record 'v probe_result =
  Host :: string
  Type :: string
  Address :: int
  Values :: "'v list"
  Status :: string

section \<open>modbus\_toolkit: scanners\<close>

text \<open>
  One pass of the loop body of \<open>scan_registers\<close>: the read, the status and the values,
  and the \<open>except Exception\<close> branch.
\<close>

definition register_read :: "string \<Rightarrow> int \<Rightarrow> int \<Rightarrow> call" where
  "register_read reg_type address count =
     (if reg_type = ''holding'' then Read_holding_registers address count
      else Read_input_registers address count)"

definition scan_registers_window ::
  "device \<Rightarrow> string \<Rightarrow> int \<Rightarrow> string \<Rightarrow> call list \<Rightarrow> int \<Rightarrow> int probe_result \<times> call list" where
  "scan_registers_window dev ip step reg_type h addr =
     (let c = register_read reg_type addr step
      in (case dev h c of
            Raises e \<Rightarrow>
              \<lparr>Host = ip, Type = reg_type, Address = addr, Values = [],
               Status = ''Exception: '' @ e\<rparr>
          | Returns response \<Rightarrow>
              \<lparr>Host = ip, Type = reg_type, Address = addr,
               Values = (if \<not> isError response then registers response else []),
               Status = (if \<not> isError response then ''OK'' else ''Error'')\<rparr>,
          h @ [c]))"

fun scan_registers_loop ::
  "device \<Rightarrow> string \<Rightarrow> int \<Rightarrow> string \<Rightarrow> int list \<Rightarrow> int probe_result list \<Rightarrow> call list
     \<Rightarrow> int probe_result list \<times> call list" where
  "scan_registers_loop dev ip step reg_type [] results h = (results, h)"
| "scan_registers_loop dev ip step reg_type (addr # addrs) results h =
     (case scan_registers_window dev ip step reg_type h addr of
        (r, h') \<Rightarrow> scan_registers_loop dev ip step reg_type addrs (results @ [r]) h')"

definition scan_registers ::
  "device \<Rightarrow> call list \<Rightarrow> string \<Rightarrow> int \<Rightarrow> int \<Rightarrow> int \<Rightarrow> string
     \<Rightarrow> py_error + (int probe_result list \<times> call list)" where
  "scan_registers dev h ip start end step reg_type =
     (case py_range start end step of
        Inl e \<Rightarrow> Inl e
      | Inr addrs \<Rightarrow> Inr (scan_registers_loop dev ip step reg_type addrs [] h))"

definition scan_coils_window ::
  "device \<Rightarrow> string \<Rightarrow> int \<Rightarrow> call list \<Rightarrow> int \<Rightarrow> bool probe_result \<times> call list" where
  "scan_coils_window dev ip step h addr =
     (let c = Read_coils addr step
      in (case dev h c of
            Raises e \<Rightarrow>
              \<lparr>Host = ip, Type = ''coil'', Address = addr, Values = [],
               Status = ''Exception: '' @ e\<rparr>
          | Returns response \<Rightarrow>
              \<lparr>Host = ip, Type = ''coil'', Address = addr,
               Values = (if \<not> isError response then bits response else []),
               Status = (if \<not> isError response then ''OK'' else ''Error'')\<rparr>,
          h @ [c]))"

fun scan_coils_loop ::
  "device \<Rightarrow> string \<Rightarrow> int \<Rightarrow> int list \<Rightarrow> bool probe_result list \<Rightarrow> call list
     \<Rightarrow> bool probe_result list \<times> call list" where
  "scan_coils_loop dev ip step [] results h = (results, h)"
| "scan_coils_loop dev ip step (addr # addrs) results h =
     (case scan_coils_window dev ip step h addr of
        (r, h') \<Rightarrow> scan_coils_loop dev ip step addrs (results @ [r]) h')"

definition scan_coils ::
  "device \<Rightarrow> call list \<Rightarrow> string \<Rightarrow> int \<Rightarrow> int \<Rightarrow> int
     \<Rightarrow> py_error + (bool probe_result list \<times> call list)" where
  "scan_coils dev h ip start end step =
     (case py_range start end step of
        Inl e \<Rightarrow> Inl e
      | Inr addrs \<Rightarrow> Inr (scan_coils_loop dev ip step addrs [] h))"

text \<open>
  A device for concrete runs: it answers every read at address 2 with an error
  response, raises a timeout at address 4, and otherwise returns two registers or
  two coils.
\<close>

definition flaky_device :: device where
  "flaky_device h c =
     (case c of
        Read_holding_registers a n \<Rightarrow>
          (if a = 2 then Returns \<lparr>isError = True, registers = [], bits = [], information = []\<rparr>
           else if a = 4 then Raises ''timed out''
           else Returns \<lparr>isError = False, registers = [7, 9], bits = [], information = []\<rparr>)
      | Read_coils a n \<Rightarrow>
          (if a = 2 then Returns \<lparr>isError = True, registers = [], bits = [], information = []\<rparr>
           else if a = 4 then Raises ''timed out''
           else Returns \<lparr>isError = False, registers = [], bits = [True, False], information = []\<rparr>)
      | _ \<Rightarrow> Returns \<lparr>isError = True, registers = [], bits = [], information = []\<rparr>)"

section \<open>modbus\_toolkit: fuzzer\<close>

text \<open>
  The pseudo-random generator is a sequence of raw draws and a position in it.
  \<open>random.randint(a, b)\<close> returns an integer between \<open>a\<close> and \<open>b\<close>, both
  included; every such integer is the result for some raw draw.
\<close>

type_synonym rng = "nat \<Rightarrow> nat"

definition randint :: "rng \<Rightarrow> nat \<Rightarrow> int \<Rightarrow> int \<Rightarrow> int" where
  "randint g p a b = a + int (g p) mod (b - a + 1)"

text \<open>The status a probe records for the outcome of one client call.\<close>

definition status_of :: "response outcome \<Rightarrow> string" where
  "status_of out =
     (case out of
        Raises e \<Rightarrow> ''Exception: '' @ e
      | Returns response \<Rightarrow> (if \<not> isError response then ''OK'' else ''Error''))"

text \<open>
  One round of \<open>fuzz_registers\<close>: the address is the draw at position \<open>p\<close>, the
  values are the next draws, one per element of \<open>range(count)\<close>.
\<close>

definition fuzz_registers_round ::
  "device \<Rightarrow> string \<Rightarrow> int \<Rightarrow> rng \<Rightarrow> nat \<Rightarrow> call list \<Rightarrow> int probe_result \<times> nat \<times> call list" where
  "fuzz_registers_round dev ip count g p h =
     (let addr = randint g p 0 120;
          values = map (\<lambda>i. randint g (p + 1 + i) 0 65535) [0..<range_len 0 count 1];
          c = Write_registers addr values
      in (\<lparr>Host = ip, Type = ''fuzz_register'', Address = addr, Values = values,
           Status = status_of (dev h c)\<rparr>,
          p + 1 + range_len 0 count 1, h @ [c]))"

fun fuzz_registers_loop ::
  "device \<Rightarrow> string \<Rightarrow> int \<Rightarrow> rng \<Rightarrow> int list \<Rightarrow> int probe_result list \<Rightarrow> nat \<Rightarrow> call list
     \<Rightarrow> int probe_result list \<times> nat \<times> call list" where
  "fuzz_registers_loop dev ip count g [] results p h = (results, p, h)"
| "fuzz_registers_loop dev ip count g (x # xs) results p h =
     (case fuzz_registers_round dev ip count g p h of
        (r, p', h') \<Rightarrow> fuzz_registers_loop dev ip count g xs (results @ [r]) p' h')"

definition fuzz_registers ::
  "device \<Rightarrow> call list \<Rightarrow> rng \<Rightarrow> nat \<Rightarrow> string \<Rightarrow> int \<Rightarrow> int
     \<Rightarrow> int probe_result list \<times> nat \<times> call list" where
  "fuzz_registers dev h g p ip count iterations =
     fuzz_registers_loop dev ip count g (range_list 0 iterations 1) [] p h"

text \<open>The write a fuzz record reports.\<close>

definition write_of :: "int probe_result \<Rightarrow> call" where
  "write_of r = Write_registers (Address r) (Values r)"

text \<open>A device that answers every call with an error response.\<close>

definition error_device :: device where
  "error_device h c = Returns \<lparr>isError = True, registers = [], bits = [], information = []\<rparr>"

text \<open>What every fuzz record satisfies, whatever the device answers.\<close>

definition fuzz_record_ok :: "int \<Rightarrow> int probe_result \<Rightarrow> bool" where
  "fuzz_record_ok count r \<longleftrightarrow>
     Type r = ''fuzz_register'' \<and> 0 \<le> Address r \<and> Address r \<le> 120 \<and>
     int (length (Values r)) = max 0 count \<and> (\<forall>v \<in> set (Values r). 0 \<le> v \<and> v \<le> 65535)"

text \<open>
  The loop invariant of the fuzzer: the session history is the history at entry
  followed by the writes of the records so far, and each record's status is the
  status of the device's answer to its write.
\<close>

definition fuzz_inv :: "device \<Rightarrow> call list \<Rightarrow> int probe_result list \<Rightarrow> call list \<Rightarrow> bool" where
  "fuzz_inv dev h0 results h \<longleftrightarrow>
     h = h0 @ map write_of results \<and>
     (\<forall>i < length results. Status (results ! i) =
        status_of (dev (h0 @ map write_of (take i results)) (write_of (results ! i))))"

text \<open>A generator for concrete runs.\<close>

definition sample_rng :: rng where
  "sample_rng n = 37 * n + 130"

section \<open>modbus\_toolkit: banner grab and fingerprint\<close>

text \<open>
  The raw socket of \<open>banner_grab\<close>. The network answers a socket call depending on
  the calls made so far on that socket; only \<open>recv\<close> returns data.
\<close>

type_synonym byte = "8 word"

datatype sock_call =
    Create_connection string int
  | Send "byte list"
  | Recv nat
  | Sock_close

type_synonym network = "sock_call list \<Rightarrow> sock_call \<Rightarrow> byte list outcome"

text \<open>\<open>bytes.hex()\<close>: two lower-case hexadecimal digits per byte.\<close>

definition hex_digit :: "nat \<Rightarrow> char" where
  "hex_digit n = ''0123456789abcdef'' ! n"

definition hex_byte :: "byte \<Rightarrow> string" where
  "hex_byte b = [hex_digit (unat b div 16), hex_digit (unat b mod 16)]"

definition hex :: "byte list \<Rightarrow> string" where
  "hex data = concat (map hex_byte data)"

text \<open>The request of the banner grab, the bytes literal of the source.\<close>

definition banner_frame :: "byte list" where
  "banner_frame = [0x00, 0x00, 0x00, 0x06, 0x01, 0x03, 0x00, 0x00, 0x00, 0x01]"

text \<open>
  \<open>banner_grab\<close> returns the hex string or \<open>None\<close>, and the socket calls it made.
  \<open>recv(1024)\<close> returns at most 1024 bytes.
\<close>

definition banner_grab :: "network \<Rightarrow> string \<Rightarrow> int \<Rightarrow> string option \<times> sock_call list" where
  "banner_grab net ip port =
     (let h1 = [Create_connection ip port] in
      case net [] (Create_connection ip port) of
        Raises e \<Rightarrow> (None, h1)
      | Returns _ \<Rightarrow>
          (let h2 = h1 @ [Send banner_frame] in
           case net h1 (Send banner_frame) of
             Raises e \<Rightarrow> (None, h2)
           | Returns _ \<Rightarrow>
               (let h3 = h2 @ [Recv 1024] in
                case net h2 (Recv 1024) of
                  Raises e \<Rightarrow> (None, h3)
                | Returns data \<Rightarrow>
                    (let h4 = h3 @ [Sock_close] in
                     case net h3 Sock_close of
                       Raises e \<Rightarrow> (None, h4)
                     | Returns _ \<Rightarrow> (Some (hex (take 1024 data)), h4)))))"

text \<open>
  The values of a result record: strings, integers, and \<open>str(patterns)\<close>, the
  rendering of a list of probe results, kept as the list it renders.
\<close>

datatype pyval = Str string | Num int | Str_of_results "int probe_result list"

type_synonym record_dict = "(string \<times> pyval) list"

definition fallback_fingerprint ::
  "device \<Rightarrow> network \<Rightarrow> call list \<Rightarrow> string \<Rightarrow> py_error + (record_dict \<times> call list)" where
  "fallback_fingerprint dev net h ip =
     (case scan_registers dev h ip 0 10 2 ''holding'' of
        Inl e \<Rightarrow> Inl e
      | Inr (patterns, h') \<Rightarrow>
          (let banner = fst (banner_grab net ip 502) in
           Inr ([(''Host'', Str ip),
                 (''Type'', Str ''fallback_fingerprint''),
                 (''Status'', Str ''OK''),
                 (''Banner'', Str (case banner of
                                     None \<Rightarrow> ''None''
                                   | Some b \<Rightarrow> (if b \<noteq> [] then b else ''None''))),
                 (''RegisterSample'', Str_of_results patterns)], h')))"

text \<open>The loop that copies the identification objects into the record.\<close>

definition add_device_fields :: "record_dict \<Rightarrow> (int \<times> string) list \<Rightarrow> record_dict" where
  "add_device_fields info items =
     foldl (\<lambda>d (obj_id, v). dict_set d (''device_'' @ str_int obj_id) (Str v)) info items"

text \<open>
  \<open>fingerprint_device\<close> of modbus\_toolkit. A call of \<open>fallback_fingerprint\<close> in the
  \<open>try\<close> block that raised would be caught and followed by the call in the
  \<open>except\<close> branch.
\<close>

definition fingerprint_device ::
  "device \<Rightarrow> network \<Rightarrow> call list \<Rightarrow> string \<Rightarrow> py_error + (record_dict \<times> call list)" where
  "fingerprint_device dev net h ip =
     (let h1 = h @ [Read_device_information] in
      case dev h Read_device_information of
        Raises e \<Rightarrow> fallback_fingerprint dev net h1 ip
      | Returns response \<Rightarrow>
          (if isError response then
             (case fallback_fingerprint dev net h1 ip of
                Inl e \<Rightarrow> fallback_fingerprint dev net h1 ip
              | Inr r \<Rightarrow> Inr r)
           else
             Inr (add_device_fields
                    [(''Host'', Str ip), (''Type'', Str ''device_info''), (''Status'', Str ''OK'')]
                    (information response), h1)))"

text \<open>Reading a key of a record.\<close>

definition field :: "record_dict \<Rightarrow> string \<Rightarrow> pyval option" where
  "field d k = map_of d k"

text \<open>Whether the identification request of a session with history \<open>h\<close> fails.\<close>

definition identification_failed :: "device \<Rightarrow> call list \<Rightarrow> bool" where
  "identification_failed dev h =
     (case dev h Read_device_information of
        Raises e \<Rightarrow> True
      | Returns response \<Rightarrow> isError response)"

text \<open>
  The request the specification describes for the banner probe, byte by byte in the
  layout of its wire protocol section: a header of a 2-byte transaction id, a 2-byte
  protocol id, a 2-byte length and a 1-byte unit id, then the function code, the
  2-byte starting address and the 2-byte count, all big-endian.
\<close>

definition be16 :: "nat \<Rightarrow> byte list" where
  "be16 n = [of_nat (n div 256), of_nat (n mod 256)]"

definition spec_read_request :: "nat \<Rightarrow> nat \<Rightarrow> nat \<Rightarrow> nat \<Rightarrow> nat \<Rightarrow> nat \<Rightarrow> nat \<Rightarrow> byte list" where
  "spec_read_request tid pid len unit fc addr cnt =
     be16 tid @ be16 pid @ be16 len @ [of_nat unit, of_nat fc] @ be16 addr @ be16 cnt"

text \<open>
  Reading the header fields back from a frame in that layout: transaction id,
  protocol id, length, unit id and function code.
\<close>

definition from_be16 :: "byte \<Rightarrow> byte \<Rightarrow> nat" where
  "from_be16 hi lo = 256 * unat hi + unat lo"

fun spec_header_fields :: "byte list \<Rightarrow> (nat \<times> nat \<times> nat \<times> nat \<times> nat) option" where
  "spec_header_fields (t1 # t0 # p1 # p0 # l1 # l0 # u # f # rest) =
     Some (from_be16 t1 t0, from_be16 p1 p0, from_be16 l1 l0, unat u, unat f)"
| "spec_header_fields _ = None"

text \<open>A network on which every socket call succeeds and \<open>recv\<close> returns two bytes.\<close>

definition echo_network :: network where
  "echo_network h c = Returns [0x01, 0x83]"

section \<open>modbusrecon\_toolkit: vendor identification and fingerprint\<close>

text \<open>The signature table, in its declared order.\<close>

definition DEVICE_SIGNATURES :: "(string \<times> string) list" where
  "DEVICE_SIGNATURES =
     [(''Schneider Electric'', ''Schneider PLC''),
      (''Siemens'', ''Siemens S7''),
      (''WAGO'', ''WAGO Controller''),
      (''Mitsubishi'', ''Mitsubishi Electric PLC''),
      (''Modicon'', ''Modicon PLC''),
      (''Rockwell'', ''Allen-Bradley PLC''),
      (''Delta'', ''Delta PLC'')]"

text \<open>
  \<open>str.lower()\<close> on the letters A to Z (strings are byte strings here; other
  characters are left as they are), and the substring test \<open>sub in s\<close>.
\<close>

definition lower_char :: "char \<Rightarrow> char" where
  "lower_char c =
     (case map_of (zip ''ABCDEFGHIJKLMNOPQRSTUVWXYZ'' ''abcdefghijklmnopqrstuvwxyz'') c of
        None \<Rightarrow> c
      | Some l \<Rightarrow> l)"

definition lower :: "string \<Rightarrow> string" where
  "lower s = map lower_char s"

fun startswith :: "string \<Rightarrow> string \<Rightarrow> bool" where
  "startswith [] s = True"
| "startswith (x # xs) [] = False"
| "startswith (x # xs) (y # ys) = (x = y \<and> startswith xs ys)"

fun contains :: "string \<Rightarrow> string \<Rightarrow> bool" where
  "contains sub [] = (sub = [])"
| "contains sub (y # ys) = (startswith sub (y # ys) \<or> contains sub ys)"

definition sig_matches :: "string \<Rightarrow> string \<Rightarrow> bool" where
  "sig_matches sig v = contains (lower sig) (lower v)"

text \<open>
  The inner loop of \<open>identify_vendor\<close>, over the signatures for one value, and the
  outer loop, over the fields of the mapping in their order.
\<close>

fun first_signature :: "(string \<times> string) list \<Rightarrow> string \<Rightarrow> string option" where
  "first_signature [] v = None"
| "first_signature ((sig, label) # sigs) v =
     (if sig_matches sig v then Some label else first_signature sigs v)"

fun identify_vendor :: "(int \<times> string) list \<Rightarrow> string" where
  "identify_vendor [] = ''Unknown Device''"
| "identify_vendor ((k, v) # info) =
     (case first_signature DEVICE_SIGNATURES v of
        Some label \<Rightarrow> label
      | None \<Rightarrow> identify_vendor info)"

text \<open>
  Vendor identification as the specification words it: the label of the first
  signature, in table order, that matches any value of the mapping.
\<close>

fun spec_first_match :: "(string \<times> string) list \<Rightarrow> (int \<times> string) list \<Rightarrow> string" where
  "spec_first_match [] info = ''Unknown Device''"
| "spec_first_match ((sig, label) # sigs) info =
     (if list_ex (\<lambda>(k, v). sig_matches sig v) info then label else spec_first_match sigs info)"

definition spec_identify_vendor :: "(int \<times> string) list \<Rightarrow> string" where
  "spec_identify_vendor info = spec_first_match DEVICE_SIGNATURES info"

text \<open>
  \<open>fingerprint_device\<close> of modbusrecon\_toolkit returns \<open>None\<close>, or a record.
\<close>

definition recon_fingerprint_device ::
  "device \<Rightarrow> call list \<Rightarrow> string \<Rightarrow> int \<Rightarrow> record_dict option \<times> call list" where
  "recon_fingerprint_device dev h ip port =
     (let h1 = h @ [Read_device_information] in
      case dev h Read_device_information of
        Raises e \<Rightarrow>
          (Some [(''Host'', Str ip), (''Port'', Num port), (''Type'', Str ''device_info''),
                 (''Status'', Str (''Exception: '' @ e))], h1)
      | Returns response \<Rightarrow>
          (if isError response then (None, h1)
           else
             (Some (dict_set
                (add_device_fields
                   [(''Host'', Str ip), (''Port'', Num port), (''Type'', Str ''device_info''),
                    (''Status'', Str ''OK'')]
                   (information response))
                ''Vendor'' (Str (identify_vendor (information response)))), h1)))"

text \<open>A device on which every call raises a timeout.\<close>

definition dead_device :: device where
  "dead_device h c = Raises ''timed out''"

text \<open>A device that answers the identification request with two objects.\<close>

definition siemens_device :: device where
  "siemens_device h c =
     (case c of
        Read_device_information \<Rightarrow>
          Returns \<lparr>isError = False, registers = [], bits = [],
                   information = [(0, ''SIEMENS AG''), (1, ''6ES7 315'')]\<rparr>
      | _ \<Rightarrow> Returns \<lparr>isError = False, registers = [], bits = [True], information = []\<rparr>)"

text \<open>
  The status tags of the specification: \<open>OK\<close>, \<open>Error\<close>, or \<open>Exception:\<close>
  followed by a detail.
\<close>

definition is_status_tag :: "string \<Rightarrow> bool" where
  "is_status_tag s \<longleftrightarrow> s = ''OK'' \<or> s = ''Error'' \<or> startswith ''Exception:'' s"

section \<open>Liveness checks and the sessions they open\<close>

text \<open>
  What a liveness check does to the client it creates: \<open>client.connect()\<close> with its
  result, a protocol call, \<open>client.close()\<close>. A session is open after a successful
  connect and until a close.
\<close>

datatype client_event = Ev_connect bool | Ev_call call | Ev_close

fun session_open_after :: "bool \<Rightarrow> client_event list \<Rightarrow> bool" where
  "session_open_after s [] = s"
| "session_open_after s (Ev_connect b # es) = session_open_after b es"
| "session_open_after s (Ev_call c # es) = session_open_after s es"
| "session_open_after s (Ev_close # es) = session_open_after False es"

definition session_open :: "client_event list \<Rightarrow> bool" where
  "session_open es = session_open_after False es"

text \<open>
  \<open>connect\<close> of both toolkits: the client when \<open>client.connect()\<close> is true, else
  \<open>None\<close>; an exception of \<open>client.connect()\<close> leaves the function.
\<close>

definition connect :: "bool outcome \<Rightarrow> py_error + (bool \<times> client_event list)" where
  "connect cn =
     (case cn of
        Raises e \<Rightarrow> Inl (RaisedBy e)
      | Returns b \<Rightarrow> Inr (b, [Ev_connect b]))"

text \<open>
  \<open>check_modbus\<close> of modbus\_toolkit, for a host whose connect has outcome \<open>cn\<close>
  and that answers like \<open>dev\<close>.
\<close>

definition check_modbus ::
  "bool outcome \<Rightarrow> device \<Rightarrow> string \<Rightarrow> int \<Rightarrow> py_error + (string option \<times> client_event list)" where
  "check_modbus cn dev ip port =
     (case connect cn of
        Inl e \<Rightarrow> Inl e
      | Inr (client, es) \<Rightarrow>
          (if client then
             (case dev [] (Read_coils 0 1) of
                Raises e \<Rightarrow> Inr (None, es @ [Ev_call (Read_coils 0 1), Ev_close])
              | Returns resp \<Rightarrow>
                  (if \<not> isError resp then Inr (Some ip, es @ [Ev_call (Read_coils 0 1)])
                   else Inr (None, es @ [Ev_call (Read_coils 0 1), Ev_close])))
           else Inr (None, es)))"

text \<open>
  \<open>check_modbus\<close> of modbusrecon\_toolkit: one client per port, all inside one
  \<open>try\<close>. The environment gives, for each port, the outcome of the connect and the
  device behind it. The result comes with the events of each client, port by port.
\<close>

fun recon_check_modbus ::
  "(int \<Rightarrow> bool outcome \<times> device) \<Rightarrow> string \<Rightarrow> int list \<Rightarrow> (int \<times> client_event list) list
     \<Rightarrow> (string \<times> int) option \<times> (int \<times> client_event list) list" where
  "recon_check_modbus env ip [] sessions = (None, sessions)"
| "recon_check_modbus env ip (port # ports) sessions =
     (case fst (env port) of
        Raises e \<Rightarrow> recon_check_modbus env ip ports (sessions @ [(port, [])])
      | Returns connected \<Rightarrow>
          (if \<not> connected then
             recon_check_modbus env ip ports (sessions @ [(port, [Ev_connect False])])
           else
             (case snd (env port) [] (Read_coils 0 1) of
                Raises e \<Rightarrow>
                  recon_check_modbus env ip ports
                    (sessions @ [(port, [Ev_connect True, Ev_call (Read_coils 0 1)])])
              | Returns resp \<Rightarrow>
                  (if \<not> isError resp then
                     (Some (ip, port),
                      sessions @ [(port, [Ev_connect True, Ev_call (Read_coils 0 1), Ev_close])])
                   else
                     recon_check_modbus env ip ports
                       (sessions @
                        [(port, [Ev_connect True, Ev_call (Read_coils 0 1), Ev_close])])))))"

section \<open>The result sequence and the reports\<close>

text \<open>
  The loop of \<open>main\<close> over the targets, in modbusrecon\_toolkit and in
  modbus\_toolkit, with fingerprinting requested. A target is given with whether its
  connect succeeds and with the device behind it; a record is appended when it is not
  \<open>None\<close> and not empty.
\<close>

fun recon_main_results ::
  "(bool \<times> device \<times> string \<times> int) list \<Rightarrow> record_dict list \<Rightarrow> record_dict list" where
  "recon_main_results [] all_results = all_results"
| "recon_main_results ((connected, dev, ip, port) # targets) all_results =
     (if \<not> connected then recon_main_results targets all_results
      else
        (case fst (recon_fingerprint_device dev [] ip port) of
           None \<Rightarrow> recon_main_results targets all_results
         | Some result \<Rightarrow>
             (if result \<noteq> [] then recon_main_results targets (all_results @ [result])
              else recon_main_results targets all_results)))"

fun toolkit_main_results ::
  "(bool \<times> device \<times> network \<times> string) list \<Rightarrow> record_dict list \<Rightarrow> record_dict list" where
  "toolkit_main_results [] all_results = all_results"
| "toolkit_main_results ((connected, dev, net, ip) # targets) all_results =
     (if \<not> connected then toolkit_main_results targets all_results
      else
        (case fingerprint_device dev net [] ip of
           Inl e \<Rightarrow> toolkit_main_results targets all_results
         | Inr (info, h) \<Rightarrow>
             (if info \<noteq> [] then toolkit_main_results targets (all_results @ [info])
              else toolkit_main_results targets all_results)))"

text \<open>
  \<open>save_csv\<close>: the field names are the keys of the first record. The writer of the
  standard library, with its default \<open>extrasaction\<close>, raises \<open>ValueError\<close> for a row
  with a key that is not a field name, and writes the empty string for a field name
  the row does not have. The result is the header and the rows written.
\<close>

definition csv_row :: "string list \<Rightarrow> record_dict \<Rightarrow> py_error + pyval list" where
  "csv_row fieldnames row =
     (if list_ex (\<lambda>k. k \<notin> set fieldnames) (keys row) then Inl ValueError
      else Inr (map (\<lambda>k. case map_of row k of None \<Rightarrow> Str [] | Some v \<Rightarrow> v) fieldnames))"

fun csv_rows :: "string list \<Rightarrow> record_dict list \<Rightarrow> py_error + pyval list list" where
  "csv_rows fieldnames [] = Inr []"
| "csv_rows fieldnames (row # rows) =
     (case csv_row fieldnames row of
        Inl e \<Rightarrow> Inl e
      | Inr cells \<Rightarrow>
          (case csv_rows fieldnames rows of
             Inl e \<Rightarrow> Inl e
           | Inr rest \<Rightarrow> Inr (cells # rest)))"

definition save_csv :: "record_dict list \<Rightarrow> py_error + (string list \<times> pyval list list)" where
  "save_csv data =
     (case data of
        [] \<Rightarrow> Inl IndexError
      | first # _ \<Rightarrow>
          (case csv_rows (keys first) data of
             Inl e \<Rightarrow> Inl e
           | Inr rows \<Rightarrow> Inr (keys first, rows)))"

section \<open>The hosts of a subnet\<close>

text \<open>
  Both \<open>scan_subnet\<close> functions expand the subnet with
  \<open>ipaddress.IPv4Network(subnet).hosts()\<close> of the Python standard library. The
  definitions follow that module (CPython 3.11, \<open>IPv4Network.__init__\<close> with its
  default \<open>strict=True\<close>, and \<open>_BaseNetwork.hosts\<close>), on the subnet string
  already split into its address, as a number, and its prefix length. An address or
  a prefix length out of range, and an address with host bits set, raise
  \<open>ValueError\<close>. The constructor replaces \<open>hosts\<close> for the prefix lengths 31 and
  32: by the iteration over all addresses, and by the list of the one address.
\<close>

record ipv4_network =
  network_address :: int
  prefixlen :: nat

definition IPv4Network :: "int \<Rightarrow> nat \<Rightarrow> py_error + ipv4_network" where
  "IPv4Network address prefix =
     (if address < 0 \<or> 2 ^ 32 \<le> address \<or> 32 < prefix then Inl ValueError
      else if address mod 2 ^ (32 - prefix) \<noteq> 0 then Inl ValueError
      else Inr \<lparr>network_address = address, prefixlen = prefix\<rparr>)"

definition broadcast_address :: "ipv4_network \<Rightarrow> int" where
  "broadcast_address net = network_address net + 2 ^ (32 - prefixlen net) - 1"

definition hosts :: "ipv4_network \<Rightarrow> int list" where
  "hosts net =
     (if prefixlen net = 31 then
        range_list (network_address net) (broadcast_address net + 1) 1
      else if prefixlen net = 32 then [network_address net]
      else range_list (network_address net + 1) (broadcast_address net) 1)"

section \<open>Failed windows carry no data\<close>

lemma scan_registers_window_failed:
  assumes "scan_registers_window dev ip step reg_type h addr = (r, h')"
    and "Status r \<noteq> ''OK''"
  shows "Values r = []"
  using assms
  by (auto simp: scan_registers_window_def Let_def split: outcome.splits if_splits)

lemma scan_coils_window_failed:
  assumes "scan_coils_window dev ip step h addr = (r, h')"
    and "Status r \<noteq> ''OK''"
  shows "Values r = []"
  using assms
  by (auto simp: scan_coils_window_def Let_def split: outcome.splits if_splits)

lemma scan_registers_loop_failed:
  assumes "scan_registers_loop dev ip step reg_type addrs results h = (rs, h')"
    and "\<forall>r \<in> set results. Status r \<noteq> ''OK'' \<longrightarrow> Values r = []"
  shows "\<forall>r \<in> set rs. Status r \<noteq> ''OK'' \<longrightarrow> Values r = []"
  using assms
proof (induction addrs arbitrary: results h)
  case Nil
  then show ?case by simp
next
  case (Cons addr addrs)
  obtain r h1 where w: "scan_registers_window dev ip step reg_type h addr = (r, h1)"
    by (cases "scan_registers_window dev ip step reg_type h addr")
  from Cons.prems(1) w
  have rest: "scan_registers_loop dev ip step reg_type addrs (results @ [r]) h1 = (rs, h')"
    by simp
  have "\<forall>x \<in> set (results @ [r]). Status x \<noteq> ''OK'' \<longrightarrow> Values x = []"
    using Cons.prems(2) scan_registers_window_failed [OF w] by auto
  with Cons.IH [OF rest] show ?case by blast
qed

lemma scan_coils_loop_failed:
  assumes "scan_coils_loop dev ip step addrs results h = (rs, h')"
    and "\<forall>r \<in> set results. Status r \<noteq> ''OK'' \<longrightarrow> Values r = []"
  shows "\<forall>r \<in> set rs. Status r \<noteq> ''OK'' \<longrightarrow> Values r = []"
  using assms
proof (induction addrs arbitrary: results h)
  case Nil
  then show ?case by simp
next
  case (Cons addr addrs)
  obtain r h1 where w: "scan_coils_window dev ip step h addr = (r, h1)"
    by (cases "scan_coils_window dev ip step h addr")
  from Cons.prems(1) w
  have rest: "scan_coils_loop dev ip step addrs (results @ [r]) h1 = (rs, h')"
    by simp
  have "\<forall>x \<in> set (results @ [r]). Status x \<noteq> ''OK'' \<longrightarrow> Values x = []"
    using Cons.prems(2) scan_coils_window_failed [OF w] by auto
  with Cons.IH [OF rest] show ?case by blast
qed

subsection \<open>Concrete runs against the flaky device\<close>

lemma range_list_0_6_2: "range_list 0 6 2 = [0, 2, 4]"
  by (simp add: range_list_def range_len_def upt_conv_Cons)

lemma flaky_registers_run:
  "scan_registers flaky_device [] ''10.0.0.1'' 0 6 2 ''holding'' = Inr
    ([\<lparr>Host = ''10.0.0.1'', Type = ''holding'', Address = 0, Values = [7, 9], Status = ''OK''\<rparr>,
      \<lparr>Host = ''10.0.0.1'', Type = ''holding'', Address = 2, Values = [], Status = ''Error''\<rparr>,
      \<lparr>Host = ''10.0.0.1'', Type = ''holding'', Address = 4, Values = [],
        Status = ''Exception: timed out''\<rparr>],
     [Read_holding_registers 0 2, Read_holding_registers 2 2, Read_holding_registers 4 2])"
  by (simp add: scan_registers_def py_range_def range_list_0_6_2 scan_registers_window_def
      register_read_def flaky_device_def)

lemma flaky_coils_run:
  "scan_coils flaky_device [] ''10.0.0.1'' 0 6 2 = Inr
    ([\<lparr>Host = ''10.0.0.1'', Type = ''coil'', Address = 0, Values = [True, False], Status = ''OK''\<rparr>,
      \<lparr>Host = ''10.0.0.1'', Type = ''coil'', Address = 2, Values = [], Status = ''Error''\<rparr>,
      \<lparr>Host = ''10.0.0.1'', Type = ''coil'', Address = 4, Values = [],
        Status = ''Exception: timed out''\<rparr>],
     [Read_coils 0 2, Read_coils 2 2, Read_coils 4 2])"
  by (simp add: scan_coils_def py_range_def range_list_0_6_2 scan_coils_window_def
      flaky_device_def)

subsection \<open>The claim\<close>

text \<open>
  C10. Every window of a register scan or of a coil scan whose status is not \<open>OK\<close>
  (that is, \<open>Error\<close> or \<open>Exception: ...\<close>) has the empty sequence as its values.
\<close>

theorem failed_window_has_no_values:
  "(scan_registers dev h ip start end step reg_type = Inr (rs, h') \<longrightarrow>
      (\<forall>r \<in> set rs. Status r \<noteq> ''OK'' \<longrightarrow> Values r = [])) \<and>
   (scan_coils dev h ip start end step = Inr (cs, h'') \<longrightarrow>
      (\<forall>r \<in> set cs. Status r \<noteq> ''OK'' \<longrightarrow> Values r = []))"
proof (intro conjI impI)
  assume "scan_registers dev h ip start end step reg_type = Inr (rs, h')"
  then have "scan_registers_loop dev ip step reg_type (range_list start end step) [] h = (rs, h')"
    by (auto simp: scan_registers_def py_range_def split: if_splits)
  from scan_registers_loop_failed [OF this]
  show "\<forall>r \<in> set rs. Status r \<noteq> ''OK'' \<longrightarrow> Values r = []" by simp
next
  assume "scan_coils dev h ip start end step = Inr (cs, h'')"
  then have "scan_coils_loop dev ip step (range_list start end step) [] h = (cs, h'')"
    by (auto simp: scan_coils_def py_range_def split: if_splits)
  from scan_coils_loop_failed [OF this]
  show "\<forall>r \<in> set cs. Status r \<noteq> ''OK'' \<longrightarrow> Values r = []" by simp
qed

theorem failed_window_has_no_values_witness:
  "(\<exists>rs h'. scan_registers flaky_device [] ''10.0.0.1'' 0 6 2 ''holding'' = Inr (rs, h') \<and>
      Status (rs ! 1) = ''Error'' \<and> Values (rs ! 1) = [] \<and>
      Status (rs ! 2) = ''Exception: timed out'' \<and> Values (rs ! 2) = []) \<and>
   (\<exists>cs h'. scan_coils flaky_device [] ''10.0.0.1'' 0 6 2 = Inr (cs, h') \<and>
      Status (cs ! 1) = ''Error'' \<and> Values (cs ! 1) = [] \<and>
      Status (cs ! 2) = ''Exception: timed out'' \<and> Values (cs ! 2) = [])"
proof -
  have regs: "\<forall>r \<in> set
      [\<lparr>Host = ''10.0.0.1'', Type = ''holding'', Address = 0, Values = [7, 9 :: int], Status = ''OK''\<rparr>,
       \<lparr>Host = ''10.0.0.1'', Type = ''holding'', Address = 2, Values = [], Status = ''Error''\<rparr>,
       \<lparr>Host = ''10.0.0.1'', Type = ''holding'', Address = 4, Values = [],
         Status = ''Exception: timed out''\<rparr>].
      Status r \<noteq> ''OK'' \<longrightarrow> Values r = []"
    by (rule failed_window_has_no_values [THEN conjunct1, THEN mp, OF flaky_registers_run])
  have coils: "\<forall>r \<in> set
      [\<lparr>Host = ''10.0.0.1'', Type = ''coil'', Address = 0, Values = [True, False], Status = ''OK''\<rparr>,
       \<lparr>Host = ''10.0.0.1'', Type = ''coil'', Address = 2, Values = [], Status = ''Error''\<rparr>,
       \<lparr>Host = ''10.0.0.1'', Type = ''coil'', Address = 4, Values = [],
         Status = ''Exception: timed out''\<rparr>].
      Status r \<noteq> ''OK'' \<longrightarrow> Values r = []"
    by (rule failed_window_has_no_values [THEN conjunct2, THEN mp, OF flaky_coils_run])
  from regs coils show ?thesis
    by (simp add: flaky_registers_run flaky_coils_run)
qed

section \<open>The register and coil sweeps\<close>

subsection \<open>Addresses of a sweep with a positive step\<close>

lemma range_len_pos:
  assumes "0 < step" "start < stop"
  shows "int (range_len start stop step) = (stop - start - 1) div step + 1"
proof -
  have "0 \<le> (stop - start - 1) div step"
    using assms by (simp add: pos_imp_zdiv_nonneg_iff)
  then show ?thesis using assms by (simp add: range_len_def)
qed

lemma range_list_pos_set:
  assumes "0 < step"
  shows "set (range_list start stop step) = {a. start \<le> a \<and> a < stop \<and> step dvd (a - start)}"
proof (cases "start < stop")
  case False
  with assms have "range_len start stop step = 0" by (simp add: range_len_def)
  with False show ?thesis by (auto simp: range_list_def)
next
  case True
  let ?q = "(stop - start - 1) div step"
  note len = range_len_pos [OF assms True]
  show ?thesis
  proof (intro set_eqI iffI)
    fix a assume "a \<in> set (range_list start stop step)"
    then obtain i where i: "i < range_len start stop step" and a: "a = start + int i * step"
      by (auto simp: range_list_def)
    from i len have "int i \<le> ?q" by linarith
    then have "int i * step \<le> ?q * step"
      using assms by (simp add: mult_right_mono)
    also have "?q * step \<le> stop - start - 1"
      using assms by (metis mult.commute pos_mod_sign mult_div_mod_eq add_increasing2 order_refl
          add.commute)
    finally have "a < stop" using a by simp
    moreover have "start \<le> a" using a assms by simp
    moreover have "step dvd (a - start)" using a by simp
    ultimately show "a \<in> {a. start \<le> a \<and> a < stop \<and> step dvd (a - start)}" by simp
  next
    fix a assume "a \<in> {a. start \<le> a \<and> a < stop \<and> step dvd (a - start)}"
    then have lo: "start \<le> a" and hi: "a < stop" and d: "step dvd (a - start)" by auto
    from d obtain k where k: "a - start = step * k" by (auto simp: dvd_def)
    have "0 \<le> k" using k lo assms by (metis diff_ge_0_iff_ge zero_le_mult_iff not_less order_less_imp_le)
    have "k = (a - start) div step" using k assms by simp
    also have "\<dots> \<le> ?q" using hi assms by (intro zdiv_mono1) auto
    finally have "nat k < range_len start stop step" using len \<open>0 \<le> k\<close> by linarith
    moreover have "a = start + int (nat k) * step" using k \<open>0 \<le> k\<close> by (simp add: mult.commute)
    ultimately have "\<exists>i < range_len start stop step. a = start + int i * step"
      by blast
    then show "a \<in> set (range_list start stop step)"
      by (auto simp: range_list_def)
  qed
qed


lemma range_list_sorted:
  assumes "0 < step"
  shows "sorted_wrt (<) (range_list start stop step)"
  using assms
  by (auto simp: range_list_def sorted_wrt_map sorted_wrt_iff_nth_less)

subsection \<open>What the loops do\<close>

lemma scan_registers_window_calls:
  "snd (scan_registers_window dev ip step reg_type h addr) = h @ [register_read reg_type addr step]"
  by (simp add: scan_registers_window_def Let_def)

lemma scan_registers_window_address:
  "Address (fst (scan_registers_window dev ip step reg_type h addr)) = addr"
  by (simp add: scan_registers_window_def Let_def split: outcome.splits)

lemma scan_coils_window_calls:
  "snd (scan_coils_window dev ip step h addr) = h @ [Read_coils addr step]"
  by (simp add: scan_coils_window_def Let_def)

lemma scan_coils_window_address:
  "Address (fst (scan_coils_window dev ip step h addr)) = addr"
  by (simp add: scan_coils_window_def Let_def split: outcome.splits)

lemma upt_length_Cons: "[0..<Suc n] = 0 # map Suc [0..<n]"
  by (simp add: upt_conv_Cons map_Suc_upt del: upt_Suc)

lemma scan_registers_loop_calls:
  "snd (scan_registers_loop dev ip step reg_type addrs results h) =
     h @ map (\<lambda>a. register_read reg_type a step) addrs"
  by (induction addrs arbitrary: results h)
     (auto simp: scan_registers_window_def Let_def split: prod.splits)

lemma scan_registers_loop_results:
  "fst (scan_registers_loop dev ip step reg_type addrs results h) =
     results @ map (\<lambda>i. fst (scan_registers_window dev ip step reg_type
        (h @ map (\<lambda>a. register_read reg_type a step) (take i addrs)) (addrs ! i)))
       [0..<length addrs]"
proof (induction addrs arbitrary: results h)
  case Nil
  then show ?case by simp
next
  case (Cons addr addrs)
  obtain r h1 where w: "scan_registers_window dev ip step reg_type h addr = (r, h1)"
    by (cases "scan_registers_window dev ip step reg_type h addr")
  then have h1: "h1 = h @ [register_read reg_type addr step]"
    using scan_registers_window_calls [of dev ip step reg_type h addr] by simp
  show ?case
    using w h1 Cons.IH [of "results @ [r]" h1]
    by (simp add: o_def upt_length_Cons del: upt_Suc)
qed

lemma scan_coils_loop_calls:
  "snd (scan_coils_loop dev ip step addrs results h) = h @ map (\<lambda>a. Read_coils a step) addrs"
  by (induction addrs arbitrary: results h)
     (auto simp: scan_coils_window_def Let_def split: prod.splits)

lemma scan_coils_loop_results:
  "fst (scan_coils_loop dev ip step addrs results h) =
     results @ map (\<lambda>i. fst (scan_coils_window dev ip step
        (h @ map (\<lambda>a. Read_coils a step) (take i addrs)) (addrs ! i)))
       [0..<length addrs]"
proof (induction addrs arbitrary: results h)
  case Nil
  then show ?case by simp
next
  case (Cons addr addrs)
  obtain r h1 where w: "scan_coils_window dev ip step h addr = (r, h1)"
    by (cases "scan_coils_window dev ip step h addr")
  then have h1: "h1 = h @ [Read_coils addr step]"
    using scan_coils_window_calls [of dev ip step h addr] by simp
  show ?case
    using w h1 Cons.IH [of "results @ [r]" h1]
    by (simp add: o_def upt_length_Cons del: upt_Suc)
qed

lemma scan_registers_sweep:
  assumes "step \<noteq> 0"
  shows "\<exists>rs. scan_registers dev h ip start end step reg_type =
           Inr (rs, h @ map (\<lambda>a. register_read reg_type a step) (range_list start end step)) \<and>
         map Address rs = range_list start end step \<and>
         (\<forall>i < length rs. rs ! i = fst (scan_registers_window dev ip step reg_type
            (h @ map (\<lambda>a. register_read reg_type a step) (take i (range_list start end step)))
            (range_list start end step ! i)))"
proof -
  let ?addrs = "range_list start end step"
  let ?run = "scan_registers_loop dev ip step reg_type ?addrs [] h"
  have run: "scan_registers dev h ip start end step reg_type = Inr (fst ?run, snd ?run)"
    using assms by (simp add: scan_registers_def py_range_def)
  have res: "fst ?run = map (\<lambda>i. fst (scan_registers_window dev ip step reg_type
        (h @ map (\<lambda>a. register_read reg_type a step) (take i ?addrs)) (?addrs ! i)))
       [0..<length ?addrs]"
    using scan_registers_loop_results [of dev ip step reg_type ?addrs "[]" h] by simp
  have "map Address (fst ?run) = ?addrs"
    unfolding res by (simp add: o_def scan_registers_window_address map_nth del: upt_Suc)
  moreover have "\<forall>i < length (fst ?run). fst ?run ! i =
      fst (scan_registers_window dev ip step reg_type
        (h @ map (\<lambda>a. register_read reg_type a step) (take i ?addrs)) (?addrs ! i))"
    unfolding res by simp
  ultimately show ?thesis
    using run scan_registers_loop_calls [of dev ip step reg_type ?addrs "[]" h] by auto
qed

lemma scan_coils_sweep:
  assumes "step \<noteq> 0"
  shows "\<exists>cs. scan_coils dev h ip start end step =
           Inr (cs, h @ map (\<lambda>a. Read_coils a step) (range_list start end step)) \<and>
         map Address cs = range_list start end step \<and>
         (\<forall>i < length cs. cs ! i = fst (scan_coils_window dev ip step
            (h @ map (\<lambda>a. Read_coils a step) (take i (range_list start end step)))
            (range_list start end step ! i)))"
proof -
  let ?addrs = "range_list start end step"
  let ?run = "scan_coils_loop dev ip step ?addrs [] h"
  have run: "scan_coils dev h ip start end step = Inr (fst ?run, snd ?run)"
    using assms by (simp add: scan_coils_def py_range_def)
  have res: "fst ?run = map (\<lambda>i. fst (scan_coils_window dev ip step
        (h @ map (\<lambda>a. Read_coils a step) (take i ?addrs)) (?addrs ! i)))
       [0..<length ?addrs]"
    using scan_coils_loop_results [of dev ip step ?addrs "[]" h] by simp
  have "map Address (fst ?run) = ?addrs"
    unfolding res by (simp add: o_def scan_coils_window_address map_nth del: upt_Suc)
  moreover have "\<forall>i < length (fst ?run). fst ?run ! i =
      fst (scan_coils_window dev ip step
        (h @ map (\<lambda>a. Read_coils a step) (take i ?addrs)) (?addrs ! i))"
    unfolding res by simp
  ultimately show ?thesis
    using run scan_coils_loop_calls [of dev ip step ?addrs "[]" h] by auto
qed

subsection \<open>Addresses of a sweep with a negative step\<close>

lemma range_list_neg:
  assumes "step < 0"
  shows "range_list start stop step = map uminus (range_list (- start) (- stop) (- step))"
proof -
  have "range_len start stop step = range_len (- start) (- stop) (- step)"
    using assms by (simp add: range_len_def)
  then show ?thesis by (simp add: range_list_def o_def)
qed

lemma range_list_neg_set:
  assumes "step < 0"
  shows "set (range_list start stop step) = {a. stop < a \<and> a \<le> start \<and> step dvd (a - start)}"
proof -
  have pos: "0 < - step" using assms by simp
  have "set (range_list start stop step) = uminus ` set (range_list (- start) (- stop) (- step))"
    by (simp add: range_list_neg [OF assms])
  also have "\<dots> = uminus ` {a. - start \<le> a \<and> a < - stop \<and> (- step) dvd (a - (- start))}"
    by (simp add: range_list_pos_set [OF pos])
  also have "\<dots> = {a. stop < a \<and> a \<le> start \<and> step dvd (a - start)}"
  proof (intro set_eqI iffI)
    fix a assume "a \<in> uminus ` {a. - start \<le> a \<and> a < - stop \<and> (- step) dvd (a - (- start))}"
    then obtain b where b: "a = - b" "- start \<le> b" "b < - stop" "(- step) dvd (b + start)"
      by auto
    from b(4) have "step dvd (b + start)" by simp
    then have "step dvd - (b + start)" by (simp only: dvd_minus_iff)
    moreover have "a - start = - (b + start)" using b(1) by simp
    ultimately have "step dvd (a - start)" by simp
    with b show "a \<in> {a. stop < a \<and> a \<le> start \<and> step dvd (a - start)}" by simp
  next
    fix a assume "a \<in> {a. stop < a \<and> a \<le> start \<and> step dvd (a - start)}"
    then have a: "stop < a" "a \<le> start" "step dvd (a - start)" by auto
    from a(3) have "step dvd - (a - start)" by (simp only: dvd_minus_iff)
    moreover have "- a - (- start) = - (a - start)" by simp
    ultimately have "step dvd (- a - (- start))" by simp
    then have "(- step) dvd (- a - (- start))" by (simp only: minus_dvd_iff)
    with a have "- a \<in> {a. - start \<le> a \<and> a < - stop \<and> (- step) dvd (a - (- start))}" by simp
    then have "- (- a) \<in> uminus ` {a. - start \<le> a \<and> a < - stop \<and> (- step) dvd (a - (- start))}"
      by (rule imageI)
    then show "a \<in> uminus ` {a. - start \<le> a \<and> a < - stop \<and> (- step) dvd (a - (- start))}"
      by simp
  qed
  finally show ?thesis .
qed

lemma range_list_neg_sorted:
  assumes "step < 0"
  shows "sorted_wrt (>) (range_list start stop step)"
  using assms
  by (auto simp: range_list_def sorted_wrt_map sorted_wrt_iff_nth_less)

lemma range_list_6_0_neg2: "range_list 6 0 (- 2) = [6, 4, 2]"
  by (simp add: range_list_def range_len_def upt_conv_Cons)

subsection \<open>What a window reports\<close>

lemma scan_registers_window_reports:
  "Host (fst (scan_registers_window dev ip step reg_type h addr)) = ip \<and>
   Type (fst (scan_registers_window dev ip step reg_type h addr)) = reg_type \<and>
   (\<forall>e. dev h (register_read reg_type addr step) = Raises e \<longrightarrow>
      Status (fst (scan_registers_window dev ip step reg_type h addr)) = ''Exception: '' @ e \<and>
      Values (fst (scan_registers_window dev ip step reg_type h addr)) = []) \<and>
   (\<forall>resp. dev h (register_read reg_type addr step) = Returns resp \<and> isError resp \<longrightarrow>
      Status (fst (scan_registers_window dev ip step reg_type h addr)) = ''Error'' \<and>
      Values (fst (scan_registers_window dev ip step reg_type h addr)) = []) \<and>
   (\<forall>resp. dev h (register_read reg_type addr step) = Returns resp \<and> \<not> isError resp \<longrightarrow>
      Status (fst (scan_registers_window dev ip step reg_type h addr)) = ''OK'' \<and>
      Values (fst (scan_registers_window dev ip step reg_type h addr)) = registers resp)"
  by (simp add: scan_registers_window_def Let_def split: outcome.splits)

lemma scan_coils_window_reports:
  "Host (fst (scan_coils_window dev ip step h addr)) = ip \<and>
   Type (fst (scan_coils_window dev ip step h addr)) = ''coil'' \<and>
   (\<forall>e. dev h (Read_coils addr step) = Raises e \<longrightarrow>
      Status (fst (scan_coils_window dev ip step h addr)) = ''Exception: '' @ e \<and>
      Values (fst (scan_coils_window dev ip step h addr)) = []) \<and>
   (\<forall>resp. dev h (Read_coils addr step) = Returns resp \<and> isError resp \<longrightarrow>
      Status (fst (scan_coils_window dev ip step h addr)) = ''Error'' \<and>
      Values (fst (scan_coils_window dev ip step h addr)) = []) \<and>
   (\<forall>resp. dev h (Read_coils addr step) = Returns resp \<and> \<not> isError resp \<longrightarrow>
      Status (fst (scan_coils_window dev ip step h addr)) = ''OK'' \<and>
      Values (fst (scan_coils_window dev ip step h addr)) = bits resp)"
  by (simp add: scan_coils_window_def Let_def split: outcome.splits)

lemma scan_registers_sweep_reports:
  assumes "step \<noteq> 0"
  shows "\<exists>rs. scan_registers dev h ip start end step reg_type =
           Inr (rs, h @ map (\<lambda>a. register_read reg_type a step) (range_list start end step)) \<and>
         map Address rs = range_list start end step \<and>
         (\<forall>i < length rs. rs ! i = fst (scan_registers_window dev ip step reg_type
            (h @ map (\<lambda>a. register_read reg_type a step) (take i (range_list start end step)))
            (range_list start end step ! i))) \<and>
         (\<forall>i < length rs.
            Host (rs ! i) = ip \<and> Type (rs ! i) = reg_type \<and>
            (\<forall>e. dev (h @ map (\<lambda>a. register_read reg_type a step)
                            (take i (range_list start end step)))
                    (register_read reg_type (range_list start end step ! i) step) = Raises e \<longrightarrow>
               Status (rs ! i) = ''Exception: '' @ e \<and> Values (rs ! i) = []) \<and>
            (\<forall>resp. dev (h @ map (\<lambda>a. register_read reg_type a step)
                               (take i (range_list start end step)))
                       (register_read reg_type (range_list start end step ! i) step) =
                     Returns resp \<and> isError resp \<longrightarrow>
               Status (rs ! i) = ''Error'' \<and> Values (rs ! i) = []) \<and>
            (\<forall>resp. dev (h @ map (\<lambda>a. register_read reg_type a step)
                               (take i (range_list start end step)))
                       (register_read reg_type (range_list start end step ! i) step) =
                     Returns resp \<and> \<not> isError resp \<longrightarrow>
               Status (rs ! i) = ''OK'' \<and> Values (rs ! i) = registers resp))"
proof -
  from scan_registers_sweep [OF assms, of dev h ip start "end" reg_type]
  obtain rs where run: "scan_registers dev h ip start end step reg_type =
           Inr (rs, h @ map (\<lambda>a. register_read reg_type a step) (range_list start end step))"
    and addrs: "map Address rs = range_list start end step"
    and each: "\<forall>i < length rs. rs ! i = fst (scan_registers_window dev ip step reg_type
            (h @ map (\<lambda>a. register_read reg_type a step) (take i (range_list start end step)))
            (range_list start end step ! i))"
    by (elim exE conjE)
  show ?thesis
  proof (intro exI [of _ rs] conjI allI impI)
    show "scan_registers dev h ip start end step reg_type =
           Inr (rs, h @ map (\<lambda>a. register_read reg_type a step) (range_list start end step))"
      by (rule run)
    show "map Address rs = range_list start end step" by (rule addrs)
  next
    fix i assume "i < length rs"
    with each show "rs ! i = fst (scan_registers_window dev ip step reg_type
            (h @ map (\<lambda>a. register_read reg_type a step) (take i (range_list start end step)))
            (range_list start end step ! i))"
      by simp
  next
    fix i assume i: "i < length rs"
    with each have eq: "rs ! i = fst (scan_registers_window dev ip step reg_type
            (h @ map (\<lambda>a. register_read reg_type a step) (take i (range_list start end step)))
            (range_list start end step ! i))"
      by simp
    note rep = scan_registers_window_reports [of dev ip step reg_type
        "h @ map (\<lambda>a. register_read reg_type a step) (take i (range_list start end step))"
        "range_list start end step ! i", folded eq]
    from rep show "Host (rs ! i) = ip" by (elim conjE)
    from rep show "Type (rs ! i) = reg_type" by (elim conjE)
    {
      fix e
      assume "dev (h @ map (\<lambda>a. register_read reg_type a step)
                            (take i (range_list start end step)))
                    (register_read reg_type (range_list start end step ! i) step) = Raises e"
      with rep show "Status (rs ! i) = ''Exception: '' @ e" by blast
      from rep \<open>dev _ _ = Raises e\<close> show "Values (rs ! i) = []" by blast
    }
    {
      fix resp
      assume a: "dev (h @ map (\<lambda>a. register_read reg_type a step)
                               (take i (range_list start end step)))
                       (register_read reg_type (range_list start end step ! i) step) =
                     Returns resp \<and> isError resp"
      with rep show "Status (rs ! i) = ''Error''" by blast
      from rep a show "Values (rs ! i) = []" by blast
    }
    {
      fix resp
      assume a: "dev (h @ map (\<lambda>a. register_read reg_type a step)
                               (take i (range_list start end step)))
                       (register_read reg_type (range_list start end step ! i) step) =
                     Returns resp \<and> \<not> isError resp"
      with rep show "Status (rs ! i) = ''OK''" by blast
      from rep a show "Values (rs ! i) = registers resp" by blast
    }
  qed
qed

lemma scan_coils_sweep_reports:
  assumes "step \<noteq> 0"
  shows "\<exists>rs. scan_coils dev h ip start end step =
           Inr (rs, h @ map (\<lambda>a. Read_coils a step) (range_list start end step)) \<and>
         map Address rs = range_list start end step \<and>
         (\<forall>i < length rs. rs ! i = fst (scan_coils_window dev ip step
            (h @ map (\<lambda>a. Read_coils a step) (take i (range_list start end step)))
            (range_list start end step ! i))) \<and>
         (\<forall>i < length rs.
            Host (rs ! i) = ip \<and> Type (rs ! i) = ''coil'' \<and>
            (\<forall>e. dev (h @ map (\<lambda>a. Read_coils a step)
                            (take i (range_list start end step)))
                    (Read_coils (range_list start end step ! i) step) = Raises e \<longrightarrow>
               Status (rs ! i) = ''Exception: '' @ e \<and> Values (rs ! i) = []) \<and>
            (\<forall>resp. dev (h @ map (\<lambda>a. Read_coils a step)
                               (take i (range_list start end step)))
                       (Read_coils (range_list start end step ! i) step) =
                     Returns resp \<and> isError resp \<longrightarrow>
               Status (rs ! i) = ''Error'' \<and> Values (rs ! i) = []) \<and>
            (\<forall>resp. dev (h @ map (\<lambda>a. Read_coils a step)
                               (take i (range_list start end step)))
                       (Read_coils (range_list start end step ! i) step) =
                     Returns resp \<and> \<not> isError resp \<longrightarrow>
               Status (rs ! i) = ''OK'' \<and> Values (rs ! i) = bits resp))"
proof -
  from scan_coils_sweep [OF assms, of dev h ip start "end"]
  obtain rs where run: "scan_coils dev h ip start end step =
           Inr (rs, h @ map (\<lambda>a. Read_coils a step) (range_list start end step))"
    and addrs: "map Address rs = range_list start end step"
    and each: "\<forall>i < length rs. rs ! i = fst (scan_coils_window dev ip step
            (h @ map (\<lambda>a. Read_coils a step) (take i (range_list start end step)))
            (range_list start end step ! i))"
    by (elim exE conjE)
  show ?thesis
  proof (intro exI [of _ rs] conjI allI impI)
    show "scan_coils dev h ip start end step =
           Inr (rs, h @ map (\<lambda>a. Read_coils a step) (range_list start end step))"
      by (rule run)
    show "map Address rs = range_list start end step" by (rule addrs)
  next
    fix i assume "i < length rs"
    with each show "rs ! i = fst (scan_coils_window dev ip step
            (h @ map (\<lambda>a. Read_coils a step) (take i (range_list start end step)))
            (range_list start end step ! i))"
      by simp
  next
    fix i assume i: "i < length rs"
    with each have eq: "rs ! i = fst (scan_coils_window dev ip step
            (h @ map (\<lambda>a. Read_coils a step) (take i (range_list start end step)))
            (range_list start end step ! i))"
      by simp
    note rep = scan_coils_window_reports [of dev ip step
        "h @ map (\<lambda>a. Read_coils a step) (take i (range_list start end step))"
        "range_list start end step ! i", folded eq]
    from rep show "Host (rs ! i) = ip" by (elim conjE)
    from rep show "Type (rs ! i) = ''coil''" by (elim conjE)
    {
      fix e
      assume "dev (h @ map (\<lambda>a. Read_coils a step)
                            (take i (range_list start end step)))
                    (Read_coils (range_list start end step ! i) step) = Raises e"
      with rep show "Status (rs ! i) = ''Exception: '' @ e" by blast
      from rep \<open>dev _ _ = Raises e\<close> show "Values (rs ! i) = []" by blast
    }
    {
      fix resp
      assume a: "dev (h @ map (\<lambda>a. Read_coils a step)
                               (take i (range_list start end step)))
                       (Read_coils (range_list start end step ! i) step) =
                     Returns resp \<and> isError resp"
      with rep show "Status (rs ! i) = ''Error''" by blast
      from rep a show "Values (rs ! i) = []" by blast
    }
    {
      fix resp
      assume a: "dev (h @ map (\<lambda>a. Read_coils a step)
                               (take i (range_list start end step)))
                       (Read_coils (range_list start end step ! i) step) =
                     Returns resp \<and> \<not> isError resp"
      with rep show "Status (rs ! i) = ''OK''" by blast
      from rep a show "Values (rs ! i) = bits resp" by blast
    }
  qed
qed

subsection \<open>The sweep, window by window\<close>

text \<open>
  C8, as the code has it. For every start, end and every step other than zero, the
  register sweep and the coil sweep return without raising. They issue exactly one
  read per address of \<open>range(start, end, step)\<close>, in that order, each requesting
  step items, and return one result per window in scan order, with the host, the
  type and the address of the window. For a step greater than zero the addresses are
  the addresses of the range from start (included) to end (excluded) that lie a
  multiple of step away from start, in ascending order; for a step less than zero
  they are the addresses from start (included) down to end (excluded) that lie a
  multiple of step away from start, in descending order. The result of a window is
  decided by the device's answer to that read alone, whatever the earlier windows
  gave: an exception gives status \<open>Exception: \<close> and its text with no values, an
  error response gives status \<open>Error\<close> with no values, and any other response gives
  status \<open>OK\<close> with its registers or bits; the sweep goes on with the next window
  in each case. A register sweep reads holding registers when the type is
  \<open>holding\<close> and input registers for every other type. With step zero both sweeps
  raise \<open>ValueError\<close> before any read.
\<close>

theorem sweep_one_result_per_window:
  "(step = 0 \<longrightarrow>
      scan_registers dev h ip start end step reg_type = Inl ValueError \<and>
      scan_coils dev h ip start end step = Inl ValueError) \<and>
   (step \<noteq> 0 \<longrightarrow>
      (\<exists>rs. scan_registers dev h ip start end step reg_type =
                 Inr (rs, h @ map (\<lambda>a. register_read reg_type a step) (range_list start end step)) \<and>
               map Address rs = range_list start end step \<and>
               (\<forall>i < length rs. rs ! i = fst (scan_registers_window dev ip step reg_type
                  (h @ map (\<lambda>a. register_read reg_type a step) (take i (range_list start end step)))
                  (range_list start end step ! i))) \<and>
               (\<forall>i < length rs.
                  Host (rs ! i) = ip \<and> Type (rs ! i) = reg_type \<and>
                  (\<forall>e. dev (h @ map (\<lambda>a. register_read reg_type a step)
                                  (take i (range_list start end step)))
                          (register_read reg_type (range_list start end step ! i) step) = Raises e \<longrightarrow>
                     Status (rs ! i) = ''Exception: '' @ e \<and> Values (rs ! i) = []) \<and>
                  (\<forall>resp. dev (h @ map (\<lambda>a. register_read reg_type a step)
                                     (take i (range_list start end step)))
                             (register_read reg_type (range_list start end step ! i) step) =
                           Returns resp \<and> isError resp \<longrightarrow>
                     Status (rs ! i) = ''Error'' \<and> Values (rs ! i) = []) \<and>
                  (\<forall>resp. dev (h @ map (\<lambda>a. register_read reg_type a step)
                                     (take i (range_list start end step)))
                             (register_read reg_type (range_list start end step ! i) step) =
                           Returns resp \<and> \<not> isError resp \<longrightarrow>
                     Status (rs ! i) = ''OK'' \<and> Values (rs ! i) = registers resp))) \<and>
      (\<exists>rs. scan_coils dev h ip start end step =
                 Inr (rs, h @ map (\<lambda>a. Read_coils a step) (range_list start end step)) \<and>
               map Address rs = range_list start end step \<and>
               (\<forall>i < length rs. rs ! i = fst (scan_coils_window dev ip step
                  (h @ map (\<lambda>a. Read_coils a step) (take i (range_list start end step)))
                  (range_list start end step ! i))) \<and>
               (\<forall>i < length rs.
                  Host (rs ! i) = ip \<and> Type (rs ! i) = ''coil'' \<and>
                  (\<forall>e. dev (h @ map (\<lambda>a. Read_coils a step)
                                  (take i (range_list start end step)))
                          (Read_coils (range_list start end step ! i) step) = Raises e \<longrightarrow>
                     Status (rs ! i) = ''Exception: '' @ e \<and> Values (rs ! i) = []) \<and>
                  (\<forall>resp. dev (h @ map (\<lambda>a. Read_coils a step)
                                     (take i (range_list start end step)))
                             (Read_coils (range_list start end step ! i) step) =
                           Returns resp \<and> isError resp \<longrightarrow>
                     Status (rs ! i) = ''Error'' \<and> Values (rs ! i) = []) \<and>
                  (\<forall>resp. dev (h @ map (\<lambda>a. Read_coils a step)
                                     (take i (range_list start end step)))
                             (Read_coils (range_list start end step ! i) step) =
                           Returns resp \<and> \<not> isError resp \<longrightarrow>
                     Status (rs ! i) = ''OK'' \<and> Values (rs ! i) = bits resp)))) \<and>
   register_read ''holding'' a n = Read_holding_registers a n \<and>
   (reg_type \<noteq> ''holding'' \<longrightarrow> register_read reg_type a n = Read_input_registers a n) \<and>
   (0 < step \<longrightarrow>
      set (range_list start end step) = {a. start \<le> a \<and> a < end \<and> step dvd (a - start)} \<and>
      sorted_wrt (<) (range_list start end step)) \<and>
   (step < 0 \<longrightarrow>
      set (range_list start end step) = {a. end < a \<and> a \<le> start \<and> step dvd (a - start)} \<and>
      sorted_wrt (>) (range_list start end step))"
proof (intro conjI impI)
  assume "step = 0"
  then show "scan_registers dev h ip start end step reg_type = Inl ValueError"
    and "scan_coils dev h ip start end step = Inl ValueError"
    by (simp_all add: scan_registers_def scan_coils_def py_range_def)
next
  assume "step \<noteq> 0"
  then show "\<exists>rs. scan_registers dev h ip start end step reg_type =
           Inr (rs, h @ map (\<lambda>a. register_read reg_type a step) (range_list start end step)) \<and>
         map Address rs = range_list start end step \<and>
         (\<forall>i < length rs. rs ! i = fst (scan_registers_window dev ip step reg_type
            (h @ map (\<lambda>a. register_read reg_type a step) (take i (range_list start end step)))
            (range_list start end step ! i))) \<and>
         (\<forall>i < length rs.
            Host (rs ! i) = ip \<and> Type (rs ! i) = reg_type \<and>
            (\<forall>e. dev (h @ map (\<lambda>a. register_read reg_type a step)
                            (take i (range_list start end step)))
                    (register_read reg_type (range_list start end step ! i) step) = Raises e \<longrightarrow>
               Status (rs ! i) = ''Exception: '' @ e \<and> Values (rs ! i) = []) \<and>
            (\<forall>resp. dev (h @ map (\<lambda>a. register_read reg_type a step)
                               (take i (range_list start end step)))
                       (register_read reg_type (range_list start end step ! i) step) =
                     Returns resp \<and> isError resp \<longrightarrow>
               Status (rs ! i) = ''Error'' \<and> Values (rs ! i) = []) \<and>
            (\<forall>resp. dev (h @ map (\<lambda>a. register_read reg_type a step)
                               (take i (range_list start end step)))
                       (register_read reg_type (range_list start end step ! i) step) =
                     Returns resp \<and> \<not> isError resp \<longrightarrow>
               Status (rs ! i) = ''OK'' \<and> Values (rs ! i) = registers resp))"
    by (rule scan_registers_sweep_reports)
next
  assume "step \<noteq> 0"
  then show "\<exists>rs. scan_coils dev h ip start end step =
           Inr (rs, h @ map (\<lambda>a. Read_coils a step) (range_list start end step)) \<and>
         map Address rs = range_list start end step \<and>
         (\<forall>i < length rs. rs ! i = fst (scan_coils_window dev ip step
            (h @ map (\<lambda>a. Read_coils a step) (take i (range_list start end step)))
            (range_list start end step ! i))) \<and>
         (\<forall>i < length rs.
            Host (rs ! i) = ip \<and> Type (rs ! i) = ''coil'' \<and>
            (\<forall>e. dev (h @ map (\<lambda>a. Read_coils a step)
                            (take i (range_list start end step)))
                    (Read_coils (range_list start end step ! i) step) = Raises e \<longrightarrow>
               Status (rs ! i) = ''Exception: '' @ e \<and> Values (rs ! i) = []) \<and>
            (\<forall>resp. dev (h @ map (\<lambda>a. Read_coils a step)
                               (take i (range_list start end step)))
                       (Read_coils (range_list start end step ! i) step) =
                     Returns resp \<and> isError resp \<longrightarrow>
               Status (rs ! i) = ''Error'' \<and> Values (rs ! i) = []) \<and>
            (\<forall>resp. dev (h @ map (\<lambda>a. Read_coils a step)
                               (take i (range_list start end step)))
                       (Read_coils (range_list start end step ! i) step) =
                     Returns resp \<and> \<not> isError resp \<longrightarrow>
               Status (rs ! i) = ''OK'' \<and> Values (rs ! i) = bits resp))"
    by (rule scan_coils_sweep_reports)
next
  show "register_read ''holding'' a n = Read_holding_registers a n"
    by (simp add: register_read_def)
next
  assume "reg_type \<noteq> ''holding''"
  then show "register_read reg_type a n = Read_input_registers a n"
    by (simp add: register_read_def)
next
  assume "0 < step"
  then show "set (range_list start end step) = {a. start \<le> a \<and> a < end \<and> step dvd (a - start)}"
    and "sorted_wrt (<) (range_list start end step)"
    by (rule range_list_pos_set, rule range_list_sorted)
next
  assume "step < 0"
  then show "set (range_list start end step) = {a. end < a \<and> a \<le> start \<and> step dvd (a - start)}"
    and "sorted_wrt (>) (range_list start end step)"
    by (rule range_list_neg_set, rule range_list_neg_sorted)
qed

theorem sweep_one_result_per_window_witness:
  "(2 :: int) \<noteq> 0 \<and> (0 :: int) < 2 \<and> (- 2 :: int) < 0 \<and>
   set (range_list 0 6 2) = {a. 0 \<le> a \<and> a < 6 \<and> 2 dvd (a - 0)} \<and>
   set (range_list 6 0 (- 2)) = {a. 0 < a \<and> a \<le> 6 \<and> (- 2) dvd (a - 6)} \<and>
   (\<exists>rs. scan_registers flaky_device [] ''10.0.0.1'' 0 6 2 ''holding'' =
      Inr (rs, [Read_holding_registers 0 2, Read_holding_registers 2 2,
                Read_holding_registers 4 2]) \<and>
      map Address rs = [0, 2, 4]) \<and>
   (\<exists>cs. scan_coils flaky_device [] ''10.0.0.1'' 6 0 (- 2) =
      Inr (cs, [Read_coils 6 (- 2), Read_coils 4 (- 2), Read_coils 2 (- 2)]) \<and>
      map Address cs = [6, 4, 2]) \<and>
   scan_registers flaky_device [] ''10.0.0.1'' 0 6 0 ''holding'' = Inl ValueError"
proof -
  have nz: "(2 :: int) \<noteq> 0" and pos: "(0 :: int) < 2" by simp_all
  have nz': "(- 2 :: int) \<noteq> 0" and neg: "(- 2 :: int) < 0" by simp_all
  have z: "(0 :: int) = 0" by simp
  note up = sweep_one_result_per_window [of 2 flaky_device "[]" "''10.0.0.1''" 0 6 "''holding''"]
  note down = sweep_one_result_per_window [of "- 2" flaky_device "[]" "''10.0.0.1''" 6 0
      "''holding''"]
  note zero = sweep_one_result_per_window [of 0 flaky_device "[]" "''10.0.0.1''" 0 6 "''holding''"]
  from up [THEN conjunct2, THEN conjunct2, THEN conjunct2, THEN conjunct2, THEN conjunct1,
      THEN mp, OF pos, THEN conjunct1]
  have s1: "set (range_list 0 6 2) = {a. 0 \<le> a \<and> a < 6 \<and> 2 dvd (a - 0)}" .
  from down [THEN conjunct2, THEN conjunct2, THEN conjunct2, THEN conjunct2, THEN conjunct2,
      THEN mp, OF neg, THEN conjunct1]
  have s2: "set (range_list 6 0 (- 2)) = {a. 0 < a \<and> a \<le> 6 \<and> (- 2) dvd (a - 6)}" .
  from up [THEN conjunct2, THEN conjunct1, THEN mp, OF nz, THEN conjunct1]
  obtain rs where "scan_registers flaky_device [] ''10.0.0.1'' 0 6 2 ''holding'' =
      Inr (rs, [] @ map (\<lambda>a. register_read ''holding'' a 2) (range_list 0 6 2))"
    and "map Address rs = range_list 0 6 2"
    by (elim exE conjE)
  then have r: "\<exists>rs. scan_registers flaky_device [] ''10.0.0.1'' 0 6 2 ''holding'' =
      Inr (rs, [Read_holding_registers 0 2, Read_holding_registers 2 2,
                Read_holding_registers 4 2]) \<and>
      map Address rs = [0, 2, 4]"
    by (intro exI [of _ rs]) (simp add: range_list_0_6_2 register_read_def)
  from down [THEN conjunct2, THEN conjunct1, THEN mp, OF nz', THEN conjunct2]
  obtain cs where "scan_coils flaky_device [] ''10.0.0.1'' 6 0 (- 2) =
      Inr (cs, [] @ map (\<lambda>a. Read_coils a (- 2)) (range_list 6 0 (- 2)))"
    and "map Address cs = range_list 6 0 (- 2)"
    by (elim exE conjE)
  then have c: "\<exists>cs. scan_coils flaky_device [] ''10.0.0.1'' 6 0 (- 2) =
      Inr (cs, [Read_coils 6 (- 2), Read_coils 4 (- 2), Read_coils 2 (- 2)]) \<and>
      map Address cs = [6, 4, 2]"
    by (intro exI [of _ cs]) (simp add: range_list_6_0_neg2)
  from zero [THEN conjunct1, THEN mp, OF z, THEN conjunct1]
  have e: "scan_registers flaky_device [] ''10.0.0.1'' 0 6 0 ''holding'' = Inl ValueError" .
  from nz pos neg s1 s2 r c e show ?thesis by (intro conjI)
qed

text \<open>
  The claim as the specification states it, for every step, fails at step zero:
  \<open>range(start, end, 0)\<close> raises \<open>ValueError\<close> outside the \<open>try\<close>, before any read,
  so the sweep returns no sequence at all.
\<close>

theorem sweep_step_zero_counterexample:
  "scan_registers flaky_device [] ''10.0.0.1'' 0 100 0 ''holding'' = Inl ValueError"
  by (simp add: scan_registers_def py_range_def)

section \<open>The fuzzer\<close>

lemma range_len_unit: "int (range_len 0 n 1) = max 0 n"
  by (simp add: range_len_def)

lemma length_range_list: "length (range_list start stop step) = range_len start stop step"
  by (simp add: range_list_def)

lemma randint_bounds:
  assumes "a \<le> b"
  shows "a \<le> randint g p a b \<and> randint g p a b \<le> b"
proof -
  have "0 < b - a + 1" using assms by simp
  then have "0 \<le> int (g p) mod (b - a + 1) \<and> int (g p) mod (b - a + 1) < b - a + 1"
    using pos_mod_sign [of "b - a + 1" "int (g p)"] pos_mod_bound [of "b - a + 1" "int (g p)"]
    by blast
  then show ?thesis unfolding randint_def by linarith
qed

lemma fuzz_round_ok:
  assumes "fuzz_registers_round dev ip count g p h = (r, p', h')"
  shows "fuzz_record_ok count r" and "Status r = status_of (dev h (write_of r))"
    and "h' = h @ [write_of r]"
  using assms randint_bounds [of 0 120 g p] randint_bounds [of 0 65535 g]
  by (auto simp: fuzz_registers_round_def Let_def fuzz_record_ok_def write_of_def range_len_unit)

lemma fuzz_inv_step:
  assumes "fuzz_inv dev h0 results h" and "Status r = status_of (dev h (write_of r))"
  shows "fuzz_inv dev h0 (results @ [r]) (h @ [write_of r])"
  using assms by (auto simp: fuzz_inv_def nth_append less_Suc_eq)

lemma fuzz_loop_props:
  assumes "fuzz_registers_loop dev ip count g xs results p h = (rs, p', h')"
    and "fuzz_inv dev h0 results h" and "list_all (fuzz_record_ok count) results"
  shows "fuzz_inv dev h0 rs h' \<and> list_all (fuzz_record_ok count) rs \<and>
         length rs = length results + length xs"
  using assms
proof (induction xs arbitrary: results p h)
  case Nil
  then show ?case by simp
next
  case (Cons x xs)
  obtain r p1 h1 where rd: "fuzz_registers_round dev ip count g p h = (r, p1, h1)"
    by (cases "fuzz_registers_round dev ip count g p h")
  note ok = fuzz_round_ok [OF rd]
  from Cons.prems(1) rd
  have rest: "fuzz_registers_loop dev ip count g xs (results @ [r]) p1 h1 = (rs, p', h')"
    by simp
  have "fuzz_inv dev h0 (results @ [r]) h1"
    using fuzz_inv_step [OF Cons.prems(2) ok(2)] ok(3) by simp
  moreover have "list_all (fuzz_record_ok count) (results @ [r])"
    using Cons.prems(3) ok(1) by simp
  ultimately show ?case using Cons.IH [OF rest] by simp
qed

lemma fuzz_loop_hosts:
  assumes "fuzz_registers_loop dev ip count g xs results p h = (rs, p', h')"
    and "list_all (\<lambda>r. Host r = ip) results"
  shows "list_all (\<lambda>r. Host r = ip) rs"
  using assms
proof (induction xs arbitrary: results p h)
  case Nil
  then show ?case by simp
next
  case (Cons x xs)
  obtain r p1 h1 where rd: "fuzz_registers_round dev ip count g p h = (r, p1, h1)"
    by (cases "fuzz_registers_round dev ip count g p h")
  then have "Host r = ip" by (auto simp: fuzz_registers_round_def Let_def)
  with Cons.prems(2) have "list_all (\<lambda>r. Host r = ip) (results @ [r])" by simp
  moreover from Cons.prems(1) rd
  have "fuzz_registers_loop dev ip count g xs (results @ [r]) p1 h1 = (rs, p', h')" by simp
  ultimately show ?case by (rule Cons.IH [rotated])
qed

text \<open>
  C9, as the code has it. For every count and iterations, the fuzzer returns one
  record per iteration, and none when iterations is negative. Each record has the
  host, the type \<open>fuzz_register\<close>, an address between 0 and 120 and one value per
  unit of count (none when count is negative), every value between 0 and 65535. Its
  status is decided by the device's answer to the write of exactly that address and
  those values: \<open>Exception: \<close> and the text when the write raises, \<open>Error\<close> for
  an error response, \<open>OK\<close> for any other response. With count 3 and one iteration
  against a device that answers every call with an error response, the result is a
  single record with status \<open>Error\<close> and three values.
\<close>

theorem fuzz_registers_records:
  assumes "fuzz_registers dev h g p ip count iterations = (rs, p', h')"
  shows "int (length rs) = max 0 iterations \<and>
     (0 \<le> iterations \<longrightarrow> int (length rs) = iterations) \<and>
     (\<forall>r \<in> set rs. Host r = ip \<and> Type r = ''fuzz_register'' \<and>
        0 \<le> Address r \<and> Address r \<le> 120 \<and>
        int (length (Values r)) = max 0 count \<and>
        (0 \<le> count \<longrightarrow> int (length (Values r)) = count) \<and>
        (\<forall>v \<in> set (Values r). 0 \<le> v \<and> v \<le> 65535)) \<and>
     (\<forall>i < length rs.
        (\<forall>e. dev (h @ map (\<lambda>r. Write_registers (Address r) (Values r)) (take i rs))
                (Write_registers (Address (rs ! i)) (Values (rs ! i))) = Raises e \<longrightarrow>
           Status (rs ! i) = ''Exception: '' @ e) \<and>
        (\<forall>resp. dev (h @ map (\<lambda>r. Write_registers (Address r) (Values r)) (take i rs))
                   (Write_registers (Address (rs ! i)) (Values (rs ! i))) = Returns resp \<and>
                 isError resp \<longrightarrow>
           Status (rs ! i) = ''Error'') \<and>
        (\<forall>resp. dev (h @ map (\<lambda>r. Write_registers (Address r) (Values r)) (take i rs))
                   (Write_registers (Address (rs ! i)) (Values (rs ! i))) = Returns resp \<and>
                 \<not> isError resp \<longrightarrow>
           Status (rs ! i) = ''OK'')) \<and>
     h' = h @ map (\<lambda>r. Write_registers (Address r) (Values r)) rs \<and>
     (count = 3 \<and> iterations = 1 \<and> (\<forall>h c. \<exists>e. dev h c = Returns e \<and> isError e) \<longrightarrow>
        (\<exists>r. rs = [r] \<and> Type r = ''fuzz_register'' \<and> Status r = ''Error'' \<and>
           length (Values r) = 3))"
proof -
  from assms
  have loop: "fuzz_registers_loop dev ip count g (range_list 0 iterations 1) [] p h = (rs, p', h')"
    by (simp add: fuzz_registers_def)
  have "fuzz_inv dev h [] h" by (simp add: fuzz_inv_def)
  from fuzz_loop_props [OF loop this]
  have inv: "fuzz_inv dev h rs h'" and ok: "list_all (fuzz_record_ok count) rs"
    and len: "length rs = length (range_list 0 iterations 1)"
    by simp_all
  have hosts: "list_all (\<lambda>r. Host r = ip) rs"
    using fuzz_loop_hosts [OF loop] by simp
  have wr: "write_of = (\<lambda>r. Write_registers (Address r) (Values r))"
    by (rule ext) (simp add: write_of_def)
  have n: "int (length rs) = max 0 iterations"
    using len by (simp add: length_range_list range_len_unit)
  then have n': "0 \<le> iterations \<longrightarrow> int (length rs) = iterations" by simp
  have recs: "\<forall>r \<in> set rs. Host r = ip \<and> Type r = ''fuzz_register'' \<and>
        0 \<le> Address r \<and> Address r \<le> 120 \<and>
        int (length (Values r)) = max 0 count \<and>
        (0 \<le> count \<longrightarrow> int (length (Values r)) = count) \<and>
        (\<forall>v \<in> set (Values r). 0 \<le> v \<and> v \<le> 65535)"
    using ok hosts by (simp add: list_all_iff fuzz_record_ok_def)
  have st0: "\<forall>i < length rs. Status (rs ! i) =
        status_of (dev (h @ map (\<lambda>r. Write_registers (Address r) (Values r)) (take i rs))
          (Write_registers (Address (rs ! i)) (Values (rs ! i))))"
    and hist: "h' = h @ map (\<lambda>r. Write_registers (Address r) (Values r)) rs"
    using inv unfolding fuzz_inv_def wr by simp_all
  have st: "\<forall>i < length rs.
        (\<forall>e. dev (h @ map (\<lambda>r. Write_registers (Address r) (Values r)) (take i rs))
                (Write_registers (Address (rs ! i)) (Values (rs ! i))) = Raises e \<longrightarrow>
           Status (rs ! i) = ''Exception: '' @ e) \<and>
        (\<forall>resp. dev (h @ map (\<lambda>r. Write_registers (Address r) (Values r)) (take i rs))
                   (Write_registers (Address (rs ! i)) (Values (rs ! i))) = Returns resp \<and>
                 isError resp \<longrightarrow>
           Status (rs ! i) = ''Error'') \<and>
        (\<forall>resp. dev (h @ map (\<lambda>r. Write_registers (Address r) (Values r)) (take i rs))
                   (Write_registers (Address (rs ! i)) (Values (rs ! i))) = Returns resp \<and>
                 \<not> isError resp \<longrightarrow>
           Status (rs ! i) = ''OK'')"
    using st0 by (simp add: status_of_def)
  have scenario: "\<exists>r. rs = [r] \<and> Type r = ''fuzz_register'' \<and> Status r = ''Error'' \<and>
           length (Values r) = 3"
    if c: "count = 3" and i: "iterations = 1"
      and err: "\<forall>h c. \<exists>e. dev h c = Returns e \<and> isError e"
  proof -
    from n i have "length rs = 1" by simp
    then obtain r where r: "rs = [r]" by (cases rs) auto
    from err obtain e where "dev h (Write_registers (Address r) (Values r)) = Returns e"
      and "isError e" by blast
    with st0 r have "Status r = ''Error''" by (simp add: status_of_def)
    moreover from recs r c have "Type r = ''fuzz_register''" and "length (Values r) = 3"
      by simp_all
    ultimately show ?thesis using r by simp
  qed
  from n n' recs st hist scenario show ?thesis by blast
qed

lemma fuzz_sample_run:
  "fuzz_registers error_device [] sample_rng 0 ''10.0.0.1'' 3 1 =
     ([\<lparr>Host = ''10.0.0.1'', Type = ''fuzz_register'', Address = 9,
        Values = [167, 204, 241], Status = ''Error''\<rparr>],
      4, [Write_registers 9 [167, 204, 241]])"
  by (simp add: fuzz_registers_def range_list_def range_len_def fuzz_registers_round_def
      randint_def sample_rng_def status_of_def error_device_def upt_conv_Cons Let_def)

theorem fuzz_registers_records_witness:
  "fuzz_registers error_device [] sample_rng 0 ''10.0.0.1'' 3 1 =
     ([\<lparr>Host = ''10.0.0.1'', Type = ''fuzz_register'', Address = 9,
        Values = [167, 204, 241], Status = ''Error''\<rparr>],
      4, [Write_registers 9 [167, 204, 241]]) \<and>
   (\<exists>r. [\<lparr>Host = ''10.0.0.1'', Type = ''fuzz_register'', Address = 9,
        Values = [167, 204, 241 :: int], Status = ''Error''\<rparr>] = [r] \<and>
      Type r = ''fuzz_register'' \<and> Status r = ''Error'' \<and> length (Values r) = 3)"
proof -
  have err: "\<forall>h c. \<exists>e. error_device h c = Returns e \<and> isError e"
    by (simp add: error_device_def)
  from fuzz_registers_records [OF fuzz_sample_run] err
  have "\<exists>r. [\<lparr>Host = ''10.0.0.1'', Type = ''fuzz_register'', Address = 9,
        Values = [167, 204, 241 :: int], Status = ''Error''\<rparr>] = [r] \<and>
      Type r = ''fuzz_register'' \<and> Status r = ''Error'' \<and> length (Values r) = 3"
    by blast
  with fuzz_sample_run show ?thesis by blast
qed

text \<open>
  The claim as the specification states it, for every count and iterations, fails on
  negative numbers: \<open>range\<close> of a negative number is empty, so minus one iteration
  gives no record rather than minus one record, and a count of minus one gives a
  record with no value.
\<close>

theorem fuzz_negative_iterations_counterexample:
  "fuzz_registers error_device [] sample_rng 0 ''10.0.0.1'' 3 (- 1) = ([], 0, []) \<and>
   fuzz_registers error_device [] sample_rng 0 ''10.0.0.1'' (- 1) 1 =
     ([\<lparr>Host = ''10.0.0.1'', Type = ''fuzz_register'', Address = 9, Values = [],
        Status = ''Error''\<rparr>], 1, [Write_registers 9 []])"
  by (simp add: fuzz_registers_def range_list_def range_len_def fuzz_registers_round_def
      randint_def sample_rng_def status_of_def error_device_def upt_conv_Cons Let_def)

section \<open>The banner probe\<close>

text \<open>
  Whenever the banner grab returns a string, it has opened one connection, sent the
  one fixed frame, asked for at most 1024 bytes and closed the socket, and the string
  is the hex form of at most 1024 bytes. On every failure it returns \<open>None\<close>.
\<close>

lemma banner_grab_result:
  assumes "fst (banner_grab net ip port) = Some b"
  shows "\<exists>data. length data \<le> 1024 \<and> b = hex data \<and>
     snd (banner_grab net ip port) =
       [Create_connection ip port, Send banner_frame, Recv 1024, Sock_close]"
  using assms
  by (auto simp: banner_grab_def Let_def split: outcome.splits intro!: exI [of _ "take 1024 _"])

text \<open>
  The fixed frame has ten bytes; a request in the layout of the specification has
  twelve. The frame is the encoding of no request at all.
\<close>

lemma banner_frame_encodes_no_request:
  "banner_frame \<noteq> spec_read_request tid pid len unit fc addr cnt"
proof
  assume "banner_frame = spec_read_request tid pid len unit fc addr cnt"
  then have "length banner_frame = length (spec_read_request tid pid len unit fc addr cnt)"
    by simp
  then show False
    by (simp add: banner_frame_def spec_read_request_def be16_def)
qed

text \<open>
  C5. The banner probe sends one fixed frame encoding transaction id 0, protocol id 0,
  length 6, unit id 1, function code 3, starting address 0 and count 1. The code does
  not: on a network where every call succeeds it sends the ten bytes
  \<open>00 00 00 06 01 03 00 00 00 01\<close>, while the stated request is the twelve bytes
  \<open>00 00 00 00 00 06 01 03 00 00 00 01\<close>. Read in the header layout, the frame sent
  has protocol id 6, length 259, unit id 0 and function code 0.
\<close>

theorem banner_frame_is_not_the_stated_request:
  "banner_grab echo_network ''10.0.0.1'' 502 =
     (Some ''0183'',
      [Create_connection ''10.0.0.1'' 502,
       Send [0x00, 0x00, 0x00, 0x06, 0x01, 0x03, 0x00, 0x00, 0x00, 0x01],
       Recv 1024, Sock_close]) \<and>
   length banner_frame = 10 \<and>
   spec_read_request 0 0 6 1 3 0 1 =
     [0x00, 0x00, 0x00, 0x00, 0x00, 0x06, 0x01, 0x03, 0x00, 0x00, 0x00, 0x01] \<and>
   banner_frame \<noteq> spec_read_request 0 0 6 1 3 0 1 \<and>
   spec_header_fields banner_frame = Some (0, 6, 259, 0, 0)"
  by (simp add: banner_grab_def echo_network_def banner_frame_def spec_read_request_def
      be16_def from_be16_def hex_def hex_byte_def hex_digit_def Let_def)

section \<open>Vendor identification\<close>

lemma first_signature_None_iff:
  "first_signature sigs v = None \<longleftrightarrow> (\<forall>(sig, label) \<in> set sigs. \<not> sig_matches sig v)"
  by (induction sigs v rule: first_signature.induct) auto

lemma first_signature_first:
  assumes "sigs = spre @ (sig, label) # spost" and "sig_matches sig v"
    and "\<forall>(s, l) \<in> set spre. \<not> sig_matches s v"
  shows "first_signature sigs v = Some label"
  using assms by (induction spre arbitrary: sigs) auto

lemma identify_vendor_unknown:
  assumes "\<forall>(k, v) \<in> set info. first_signature DEVICE_SIGNATURES v = None"
  shows "identify_vendor info = ''Unknown Device''"
  using assms by (induction info rule: identify_vendor.induct) auto

lemma identify_vendor_first_field:
  assumes "info = pre @ (k, v) # post"
    and "\<forall>(k', v') \<in> set pre. first_signature DEVICE_SIGNATURES v' = None"
    and "first_signature DEVICE_SIGNATURES v = Some label"
  shows "identify_vendor info = label"
  using assms by (induction pre arbitrary: info) auto

lemma first_signature_only_siemens:
  assumes "\<forall>(s, l) \<in> set DEVICE_SIGNATURES. s \<noteq> ''Siemens'' \<longrightarrow> \<not> sig_matches s v"
  shows "first_signature DEVICE_SIGNATURES v =
           (if sig_matches ''Siemens'' v then Some ''Siemens S7'' else None)"
  using assms by (simp add: DEVICE_SIGNATURES_def)

lemma identify_vendor_only_siemens:
  assumes "\<forall>(k, v) \<in> set info. \<forall>(s, l) \<in> set DEVICE_SIGNATURES.
             s \<noteq> ''Siemens'' \<longrightarrow> \<not> sig_matches s v"
  shows "identify_vendor info =
           (if \<exists>(k, v) \<in> set info. sig_matches ''Siemens'' v then ''Siemens S7''
            else ''Unknown Device'')"
  using assms
proof (induction info rule: identify_vendor.induct)
  case 1
  then show ?case by simp
next
  case (2 k v info)
  from "2.prems" have v: "\<forall>(s, l) \<in> set DEVICE_SIGNATURES. s \<noteq> ''Siemens'' \<longrightarrow> \<not> sig_matches s v"
    and rest: "\<forall>(k, v) \<in> set info. \<forall>(s, l) \<in> set DEVICE_SIGNATURES.
             s \<noteq> ''Siemens'' \<longrightarrow> \<not> sig_matches s v"
    by auto
  show ?case
  proof (cases "sig_matches ''Siemens'' v")
    case True
    then show ?thesis using first_signature_only_siemens [OF v] by simp
  next
    case False
    then have "first_signature DEVICE_SIGNATURES v = None"
      using first_signature_only_siemens [OF v] by simp
    then show ?thesis using "2.IH" rest False by simp
  qed
qed

text \<open>
  C2, as the code has it. Vendor identification goes through the fields in the order
  of the mapping and, for each value, through the signatures in table order; it
  returns the label of the first signature, in table order, that is a case-insensitive
  substring of the first value, in field order, that any signature matches. A mapping
  in which no signature matches any value gives \<open>Unknown Device\<close>. A mapping with a
  value containing \<open>Siemens\<close> in any case, in which no other signature matches any
  value, gives \<open>Siemens S7\<close> in every order of its fields.
\<close>

theorem identify_vendor_field_order_first:
  "(\<not> (\<exists>(k, v) \<in> set info. \<exists>(sig, label) \<in> set DEVICE_SIGNATURES. sig_matches sig v) \<longrightarrow>
      identify_vendor info = ''Unknown Device'') \<and>
   (\<forall>pre k v post spre sig label spost.
      info = pre @ (k, v) # post \<and>
      (\<forall>(k', v') \<in> set pre. \<forall>(s, l) \<in> set DEVICE_SIGNATURES. \<not> sig_matches s v') \<and>
      DEVICE_SIGNATURES = spre @ (sig, label) # spost \<and> sig_matches sig v \<and>
      (\<forall>(s, l) \<in> set spre. \<not> sig_matches s v) \<longrightarrow>
      identify_vendor info = label) \<and>
   ((\<exists>(k, v) \<in> set info. sig_matches ''Siemens'' v) \<and>
    (\<forall>(k, v) \<in> set info. \<forall>(s, l) \<in> set DEVICE_SIGNATURES.
       s \<noteq> ''Siemens'' \<longrightarrow> \<not> sig_matches s v) \<longrightarrow>
    (\<forall>info'. set info' = set info \<longrightarrow> identify_vendor info' = ''Siemens S7''))"
proof (intro conjI impI allI)
  assume "\<not> (\<exists>(k, v) \<in> set info. \<exists>(sig, label) \<in> set DEVICE_SIGNATURES. sig_matches sig v)"
  then have "\<forall>(k, v) \<in> set info. first_signature DEVICE_SIGNATURES v = None"
    by (auto simp: first_signature_None_iff)
  then show "identify_vendor info = ''Unknown Device''" by (rule identify_vendor_unknown)
next
  fix pre k v post spre sig label spost
  assume a: "info = pre @ (k, v) # post \<and>
      (\<forall>(k', v') \<in> set pre. \<forall>(s, l) \<in> set DEVICE_SIGNATURES. \<not> sig_matches s v') \<and>
      DEVICE_SIGNATURES = spre @ (sig, label) # spost \<and> sig_matches sig v \<and>
      (\<forall>(s, l) \<in> set spre. \<not> sig_matches s v)"
  then have "\<forall>(k', v') \<in> set pre. first_signature DEVICE_SIGNATURES v' = None"
    by (auto simp: first_signature_None_iff)
  moreover from a have "first_signature DEVICE_SIGNATURES v = Some label"
    using first_signature_first [of DEVICE_SIGNATURES spre sig label spost v] by blast
  ultimately show "identify_vendor info = label"
    using a identify_vendor_first_field [of info pre k v post label] by blast
next
  fix info'
  assume a: "(\<exists>(k, v) \<in> set info. sig_matches ''Siemens'' v) \<and>
    (\<forall>(k, v) \<in> set info. \<forall>(s, l) \<in> set DEVICE_SIGNATURES.
       s \<noteq> ''Siemens'' \<longrightarrow> \<not> sig_matches s v)"
    and s: "set info' = set info"
  from a s have "\<forall>(k, v) \<in> set info'. \<forall>(s, l) \<in> set DEVICE_SIGNATURES.
       s \<noteq> ''Siemens'' \<longrightarrow> \<not> sig_matches s v"
    by simp
  from identify_vendor_only_siemens [OF this] a s
  show "identify_vendor info' = ''Siemens S7''" by simp
qed

lemma lower_signatures:
  "lower ''Schneider Electric'' = ''schneider electric''"
  "lower ''Siemens'' = ''siemens''"
  "lower ''WAGO'' = ''wago''"
  "lower ''Mitsubishi'' = ''mitsubishi''"
  "lower ''Modicon'' = ''modicon''"
  "lower ''Rockwell'' = ''rockwell''"
  "lower ''Delta'' = ''delta''"
  by (simp_all add: lower_def lower_char_def)

lemma lower_samples:
  "lower ''SIEMENS AG'' = ''siemens ag''"
  "lower ''Schneider Electric'' = ''schneider electric''"
  "lower ''6ES7 315'' = ''6es7 315''"
  "lower ''acme'' = ''acme''"
  by (simp_all add: lower_def lower_char_def)

theorem identify_vendor_field_order_first_witness:
  "identify_vendor [(0, ''acme'')] = ''Unknown Device'' \<and>
   identify_vendor [(0, ''SIEMENS AG''), (1, ''6ES7 315'')] = ''Siemens S7'' \<and>
   identify_vendor [(1, ''6ES7 315''), (0, ''SIEMENS AG'')] = ''Siemens S7''"
proof -
  have none: "\<not> (\<exists>(k, v) \<in> set [(0 :: int, ''acme'')].
      \<exists>(sig, label) \<in> set DEVICE_SIGNATURES. sig_matches sig v)"
    by (simp add: DEVICE_SIGNATURES_def sig_matches_def lower_signatures lower_samples)
  have hit: "\<exists>(k, v) \<in> set [(0 :: int, ''SIEMENS AG''), (1, ''6ES7 315'')]. sig_matches ''Siemens'' v"
    by (simp add: sig_matches_def lower_signatures lower_samples)
  have only: "\<forall>(k, v) \<in> set [(0 :: int, ''SIEMENS AG''), (1, ''6ES7 315'')].
      \<forall>(s, l) \<in> set DEVICE_SIGNATURES. s \<noteq> ''Siemens'' \<longrightarrow> \<not> sig_matches s v"
    by (simp add: DEVICE_SIGNATURES_def sig_matches_def lower_signatures lower_samples)
  have perm: "set [(1 :: int, ''6ES7 315''), (0, ''SIEMENS AG'')] =
      set [(0, ''SIEMENS AG''), (1, ''6ES7 315'')]"
    by auto
  from identify_vendor_field_order_first [of "[(0, ''acme'')]"] none
  have "identify_vendor [(0, ''acme'')] = ''Unknown Device''" by blast
  moreover from identify_vendor_field_order_first [of "[(0, ''SIEMENS AG''), (1, ''6ES7 315'')]"]
    hit only
  have all: "\<forall>info'. set info' = set [(0 :: int, ''SIEMENS AG''), (1, ''6ES7 315'')] \<longrightarrow>
      identify_vendor info' = ''Siemens S7''"
    by blast
  ultimately show ?thesis using perm by blast
qed

text \<open>
  The claim as the specification states it fails when two signatures match values of
  different fields: the field that comes first decides, not the signature that comes
  first in the table, and a mapping containing \<open>Siemens\<close> gives \<open>Siemens S7\<close> in
  one order of its fields and \<open>Schneider PLC\<close> in the other.
\<close>

theorem identify_vendor_table_order_counterexample:
  "identify_vendor [(0, ''SIEMENS AG''), (1, ''Schneider Electric'')] = ''Siemens S7'' \<and>
   spec_identify_vendor [(0, ''SIEMENS AG''), (1, ''Schneider Electric'')] = ''Schneider PLC'' \<and>
   identify_vendor [(1, ''Schneider Electric''), (0, ''SIEMENS AG'')] = ''Schneider PLC''"
  by (simp add: spec_identify_vendor_def DEVICE_SIGNATURES_def sig_matches_def
      lower_signatures lower_samples)

section \<open>Fingerprinting\<close>

lemma range_list_0_10_2: "range_list 0 10 2 = [0, 2, 4, 6, 8]"
  by (simp add: range_list_def range_len_def upt_conv_Cons)

lemma field_dict_set_other: "k' \<noteq> k \<Longrightarrow> field (dict_set d k v) k' = field d k'"
  by (induction d k v rule: dict_set.induct) (auto simp: field_def)

lemma startswith_append: "startswith p (p @ s)"
  by (induction p) auto

lemma field_add_device_fields:
  assumes "\<not> startswith ''device_'' k"
  shows "field (add_device_fields d items) k = field d k"
proof -
  have ne: "''device_'' @ s \<noteq> k" for s
    using assms startswith_append [of "''device_''" s] by auto
  show ?thesis unfolding add_device_fields_def
  proof (induction items arbitrary: d)
    case Nil
    then show ?case by simp
  next
    case (Cons x xs)
    obtain i v where x: "x = (i, v)" by (cases x)
    show ?case using Cons.IH ne [of "str_int i"] by (simp add: x field_dict_set_other)
  qed
qed

lemma banner_text:
  "\<exists>b. (case fst (banner_grab net ip 502) of None \<Rightarrow> ''None''
          | Some b \<Rightarrow> (if b \<noteq> [] then b else ''None'')) = b \<and> b \<noteq> [] \<and>
        (b = ''None'' \<or> (\<exists>data. length data \<le> 1024 \<and> b = hex data))"
proof (cases "fst (banner_grab net ip 502)")
  case None
  then show ?thesis by simp
next
  case (Some b)
  from banner_grab_result [OF Some] show ?thesis using Some by auto
qed

lemma fallback_fingerprint_record:
  obtains patterns b h' where
    "fallback_fingerprint dev net h ip =
       Inr ([(''Host'', Str ip), (''Type'', Str ''fallback_fingerprint''), (''Status'', Str ''OK''),
             (''Banner'', Str b), (''RegisterSample'', Str_of_results patterns)], h')"
    and "map Address patterns = [0, 2, 4, 6, 8]" and "b \<noteq> []"
    and "b = ''None'' \<or> (\<exists>data. length data \<le> 1024 \<and> b = hex data)"
proof -
  have "(2::int) \<noteq> 0" by simp
  from scan_registers_sweep [OF this, of dev h ip 0 10 "''holding''"]
  obtain rs h' where run: "scan_registers dev h ip 0 10 2 ''holding'' = Inr (rs, h')"
    and addrs: "map Address rs = [0, 2, 4, 6, 8]"
    by (auto simp: range_list_0_10_2)
  from banner_text [of net ip] obtain b where
    b: "(case fst (banner_grab net ip 502) of None \<Rightarrow> ''None''
          | Some b \<Rightarrow> (if b \<noteq> [] then b else ''None'')) = b"
    and bp: "b \<noteq> []" "b = ''None'' \<or> (\<exists>data. length data \<le> 1024 \<and> b = hex data)"
    by (elim exE conjE)
  have "fallback_fingerprint dev net h ip =
       Inr ([(''Host'', Str ip), (''Type'', Str ''fallback_fingerprint''), (''Status'', Str ''OK''),
             (''Banner'', Str b), (''RegisterSample'', Str_of_results rs)], h')"
    using run b by (simp add: fallback_fingerprint_def Let_def)
  from that [OF this addrs bp] show thesis .
qed

lemma fingerprint_device_failed:
  assumes "identification_failed dev h"
  shows "fingerprint_device dev net h ip =
           fallback_fingerprint dev net (h @ [Read_device_information]) ip"
proof -
  obtain patterns b h' where
    "fallback_fingerprint dev net (h @ [Read_device_information]) ip =
       Inr ([(''Host'', Str ip), (''Type'', Str ''fallback_fingerprint''), (''Status'', Str ''OK''),
             (''Banner'', Str b), (''RegisterSample'', Str_of_results patterns)], h')"
    by (rule fallback_fingerprint_record)
  then show ?thesis
    using assms
    by (auto simp: fingerprint_device_def identification_failed_def Let_def
        split: outcome.splits)
qed

lemma fingerprint_device_identified:
  assumes "\<not> identification_failed dev h"
  obtains response where "dev h Read_device_information = Returns response"
    and "fingerprint_device dev net h ip =
           Inr (add_device_fields
                  [(''Host'', Str ip), (''Type'', Str ''device_info''), (''Status'', Str ''OK'')]
                  (information response), h @ [Read_device_information])"
proof (cases "dev h Read_device_information")
  case (Raises e)
  with assms show ?thesis by (simp add: identification_failed_def)
next
  case (Returns response)
  with assms have "\<not> isError response" by (simp add: identification_failed_def)
  with Returns have "fingerprint_device dev net h ip =
           Inr (add_device_fields
                  [(''Host'', Str ip), (''Type'', Str ''device_info''), (''Status'', Str ''OK'')]
                  (information response), h @ [Read_device_information])"
    by (simp add: fingerprint_device_def Let_def)
  from that [OF Returns this] show ?thesis .
qed

lemma recon_fingerprint_device_type:
  assumes "fst (recon_fingerprint_device dev h ip port) = Some r"
  shows "field r ''Type'' = Some (Str ''device_info'')"
proof (cases "dev h Read_device_information")
  case (Raises e)
  with assms show ?thesis
    by (auto simp: recon_fingerprint_device_def Let_def field_def)
next
  case (Returns response)
  with assms have "\<not> isError response"
    and r: "r = dict_set (add_device_fields
        [(''Host'', Str ip), (''Port'', Num port), (''Type'', Str ''device_info''),
         (''Status'', Str ''OK'')] (information response))
        ''Vendor'' (Str (identify_vendor (information response)))"
    by (auto simp: recon_fingerprint_device_def Let_def split: if_splits)
  show ?thesis unfolding r
    by (simp add: field_dict_set_other field_add_device_fields) (simp add: field_def)
qed

text \<open>
  C1, as the code has it. The fingerprint of modbus\_toolkit always returns a record.
  Its type is \<open>fallback_fingerprint\<close> if and only if the identification request
  failed (an error response or an exception), and \<open>device_info\<close> otherwise. Every
  fallback record has status \<open>OK\<close>, a register sample of five windows (addresses 0,
  2, 4, 6, 8) and a banner that is a non-empty hex string or the marker \<open>None\<close>.
  The fingerprint of modbusrecon\_toolkit has no fallback: it returns no record when
  the request gets an error response, a record of type \<open>device_info\<close> with status
  \<open>Exception: ...\<close> when the request raises, and only records of type
  \<open>device_info\<close>.
\<close>

theorem fingerprint_fallback_iff_failed:
  "(\<exists>r h'. fingerprint_device dev net h ip = Inr (r, h') \<and>
      (field r ''Type'' = Some (Str ''fallback_fingerprint'') \<longleftrightarrow> identification_failed dev h) \<and>
      (field r ''Type'' = Some (Str ''device_info'') \<longleftrightarrow> \<not> identification_failed dev h) \<and>
      (identification_failed dev h \<longrightarrow>
         field r ''Status'' = Some (Str ''OK'') \<and>
         (\<exists>patterns. field r ''RegisterSample'' = Some (Str_of_results patterns) \<and>
            map Address patterns = [0, 2, 4, 6, 8]) \<and>
         (\<exists>b. field r ''Banner'' = Some (Str b) \<and> b \<noteq> [] \<and>
            (b = ''None'' \<or> (\<exists>data. length data \<le> 1024 \<and> b = hex data))))) \<and>
   (fst (recon_fingerprint_device dev h ip port) = None \<longleftrightarrow>
      (\<exists>response. dev h Read_device_information = Returns response \<and> isError response)) \<and>
   (\<forall>e. dev h Read_device_information = Raises e \<longrightarrow>
      fst (recon_fingerprint_device dev h ip port) =
        Some [(''Host'', Str ip), (''Port'', Num port), (''Type'', Str ''device_info''),
              (''Status'', Str (''Exception: '' @ e))]) \<and>
   (\<forall>r. fst (recon_fingerprint_device dev h ip port) = Some r \<longrightarrow>
      field r ''Type'' = Some (Str ''device_info''))"
proof (intro conjI)
  show "\<exists>r h'. fingerprint_device dev net h ip = Inr (r, h') \<and>
      (field r ''Type'' = Some (Str ''fallback_fingerprint'') \<longleftrightarrow> identification_failed dev h) \<and>
      (field r ''Type'' = Some (Str ''device_info'') \<longleftrightarrow> \<not> identification_failed dev h) \<and>
      (identification_failed dev h \<longrightarrow>
         field r ''Status'' = Some (Str ''OK'') \<and>
         (\<exists>patterns. field r ''RegisterSample'' = Some (Str_of_results patterns) \<and>
            map Address patterns = [0, 2, 4, 6, 8]) \<and>
         (\<exists>b. field r ''Banner'' = Some (Str b) \<and> b \<noteq> [] \<and>
            (b = ''None'' \<or> (\<exists>data. length data \<le> 1024 \<and> b = hex data))))"
  proof (cases "identification_failed dev h")
    case True
    obtain patterns b h' where
      fb: "fallback_fingerprint dev net (h @ [Read_device_information]) ip =
        Inr ([(''Host'', Str ip), (''Type'', Str ''fallback_fingerprint''), (''Status'', Str ''OK''),
              (''Banner'', Str b), (''RegisterSample'', Str_of_results patterns)], h')"
      and p: "map Address patterns = [0, 2, 4, 6, 8]"
      and b: "b \<noteq> []" "b = ''None'' \<or> (\<exists>data. length data \<le> 1024 \<and> b = hex data)"
      by (rule fallback_fingerprint_record)
    from True fb have "fingerprint_device dev net h ip =
        Inr ([(''Host'', Str ip), (''Type'', Str ''fallback_fingerprint''), (''Status'', Str ''OK''),
              (''Banner'', Str b), (''RegisterSample'', Str_of_results patterns)], h')"
      using fingerprint_device_failed [of dev h net ip] by simp
    then show ?thesis using True p b
      by (intro exI [of _ "[(''Host'', Str ip), (''Type'', Str ''fallback_fingerprint''),
          (''Status'', Str ''OK''), (''Banner'', Str b),
          (''RegisterSample'', Str_of_results patterns)]"] exI [of _ h'])
        (simp add: field_def)
  next
    case False
    from False obtain response where
      "dev h Read_device_information = Returns response" and
      run: "fingerprint_device dev net h ip =
           Inr (add_device_fields
                  [(''Host'', Str ip), (''Type'', Str ''device_info''), (''Status'', Str ''OK'')]
                  (information response), h @ [Read_device_information])"
      by (rule fingerprint_device_identified)
    have "field (add_device_fields
           [(''Host'', Str ip), (''Type'', Str ''device_info''), (''Status'', Str ''OK'')]
           (information response)) ''Type'' = Some (Str ''device_info'')"
      by (simp add: field_add_device_fields) (simp add: field_def)
    with run False show ?thesis by simp
  qed
next
  show "fst (recon_fingerprint_device dev h ip port) = None \<longleftrightarrow>
      (\<exists>response. dev h Read_device_information = Returns response \<and> isError response)"
    by (auto simp: recon_fingerprint_device_def Let_def split: outcome.splits)
next
  show "\<forall>e. dev h Read_device_information = Raises e \<longrightarrow>
      fst (recon_fingerprint_device dev h ip port) =
        Some [(''Host'', Str ip), (''Port'', Num port), (''Type'', Str ''device_info''),
              (''Status'', Str (''Exception: '' @ e))]"
    by (simp add: recon_fingerprint_device_def Let_def)
next
  show "\<forall>r. fst (recon_fingerprint_device dev h ip port) = Some r \<longrightarrow>
      field r ''Type'' = Some (Str ''device_info'')"
    using recon_fingerprint_device_type by blast
qed

theorem fingerprint_fallback_iff_failed_witness:
  "identification_failed error_device [] \<and>
   (\<exists>r h'. fingerprint_device error_device echo_network [] ''10.0.0.1'' = Inr (r, h') \<and>
      field r ''Type'' = Some (Str ''fallback_fingerprint'') \<and>
      field r ''Status'' = Some (Str ''OK'')) \<and>
   \<not> identification_failed siemens_device [] \<and>
   (\<exists>r h'. fingerprint_device siemens_device echo_network [] ''10.0.0.1'' = Inr (r, h') \<and>
      field r ''Type'' = Some (Str ''device_info''))"
proof -
  have failed: "identification_failed error_device []"
    by (simp add: identification_failed_def error_device_def)
  have identified: "\<not> identification_failed siemens_device []"
    by (simp add: identification_failed_def siemens_device_def)
  obtain r h' where
    "fingerprint_device error_device echo_network [] ''10.0.0.1'' = Inr (r, h')"
    and "field r ''Type'' = Some (Str ''fallback_fingerprint'') \<longleftrightarrow>
      identification_failed error_device []"
    and "identification_failed error_device [] \<longrightarrow>
         field r ''Status'' = Some (Str ''OK'') \<and>
         (\<exists>patterns. field r ''RegisterSample'' = Some (Str_of_results patterns) \<and>
            map Address patterns = [0, 2, 4, 6, 8]) \<and>
         (\<exists>b. field r ''Banner'' = Some (Str b) \<and> b \<noteq> [] \<and>
            (b = ''None'' \<or> (\<exists>data. length data \<le> 1024 \<and> b = hex data)))"
    using fingerprint_fallback_iff_failed
      [of error_device echo_network "[]" "''10.0.0.1''" 502, THEN conjunct1]
    by (elim exE conjE)
  with failed have fb: "\<exists>r h'.
      fingerprint_device error_device echo_network [] ''10.0.0.1'' = Inr (r, h') \<and>
      field r ''Type'' = Some (Str ''fallback_fingerprint'') \<and>
      field r ''Status'' = Some (Str ''OK'')"
    by (intro exI [of _ r] exI [of _ h']) simp
  obtain r2 h2 where
    "fingerprint_device siemens_device echo_network [] ''10.0.0.1'' = Inr (r2, h2)"
    and "field r2 ''Type'' = Some (Str ''device_info'') \<longleftrightarrow>
      \<not> identification_failed siemens_device []"
    using fingerprint_fallback_iff_failed
      [of siemens_device echo_network "[]" "''10.0.0.1''" 502, THEN conjunct1]
    by (elim exE conjE)
  with identified have di: "\<exists>r h'.
      fingerprint_device siemens_device echo_network [] ''10.0.0.1'' = Inr (r, h') \<and>
      field r ''Type'' = Some (Str ''device_info'')"
    by (intro exI [of _ r2] exI [of _ h2]) simp
  from failed fb identified di show ?thesis by (intro conjI)
qed

text \<open>
  The claim as the specification states it, for every probed target, fails on the
  fingerprint of modbusrecon\_toolkit: a request that raises gives a record of type
  \<open>device_info\<close>, and a request that gets an error response gives no record.
\<close>

theorem recon_fingerprint_no_fallback_counterexample:
  "identification_failed dead_device [] \<and>
   fst (recon_fingerprint_device dead_device [] ''10.0.0.1'' 502) =
     Some [(''Host'', Str ''10.0.0.1''), (''Port'', Num 502), (''Type'', Str ''device_info''),
           (''Status'', Str ''Exception: timed out'')] \<and>
   identification_failed error_device [] \<and>
   fst (recon_fingerprint_device error_device [] ''10.0.0.1'' 502) = None"
  by (simp add: identification_failed_def recon_fingerprint_device_def dead_device_def
      error_device_def Let_def)

section \<open>Status tags\<close>

lemma exception_is_status_tag: "is_status_tag (''Exception: '' @ e)"
  by (simp add: is_status_tag_def)

lemma status_of_is_status_tag: "is_status_tag (status_of out)"
  by (cases out) (simp_all add: status_of_def is_status_tag_def)

lemma scan_registers_window_status:
  "is_status_tag (Status (fst (scan_registers_window dev ip step reg_type h addr)))"
  by (simp add: scan_registers_window_def Let_def is_status_tag_def split: outcome.splits)

lemma scan_coils_window_status:
  "is_status_tag (Status (fst (scan_coils_window dev ip step h addr)))"
  by (simp add: scan_coils_window_def Let_def is_status_tag_def split: outcome.splits)

lemma scan_registers_statuses:
  assumes "step \<noteq> 0"
  obtains rs h' where "scan_registers dev h ip start end step reg_type = Inr (rs, h')"
    and "\<forall>r \<in> set rs. is_status_tag (Status r)"
proof -
  from scan_registers_sweep [OF assms, of dev h ip start "end" reg_type]
  obtain rs where run: "scan_registers dev h ip start end step reg_type =
      Inr (rs, h @ map (\<lambda>a. register_read reg_type a step) (range_list start end step))"
    and each: "\<forall>i < length rs. rs ! i = fst (scan_registers_window dev ip step reg_type
            (h @ map (\<lambda>a. register_read reg_type a step) (take i (range_list start end step)))
            (range_list start end step ! i))"
    by (elim exE conjE)
  have "\<forall>r \<in> set rs. is_status_tag (Status r)"
  proof
    fix r assume "r \<in> set rs"
    then obtain i where "i < length rs" and "rs ! i = r" by (auto simp: in_set_conv_nth)
    with each show "is_status_tag (Status r)"
      using scan_registers_window_status by metis
  qed
  from that [OF run this] show thesis .
qed

lemma scan_coils_statuses:
  assumes "step \<noteq> 0"
  obtains cs h' where "scan_coils dev h ip start end step = Inr (cs, h')"
    and "\<forall>r \<in> set cs. is_status_tag (Status r)"
proof -
  from scan_coils_sweep [OF assms, of dev h ip start "end"]
  obtain cs where run: "scan_coils dev h ip start end step =
      Inr (cs, h @ map (\<lambda>a. Read_coils a step) (range_list start end step))"
    and each: "\<forall>i < length cs. cs ! i = fst (scan_coils_window dev ip step
            (h @ map (\<lambda>a. Read_coils a step) (take i (range_list start end step)))
            (range_list start end step ! i))"
    by (elim exE conjE)
  have "\<forall>r \<in> set cs. is_status_tag (Status r)"
  proof
    fix r assume "r \<in> set cs"
    then obtain i where "i < length cs" and "cs ! i = r" by (auto simp: in_set_conv_nth)
    with each show "is_status_tag (Status r)"
      using scan_coils_window_status by metis
  qed
  from that [OF run this] show thesis .
qed

lemma fuzz_registers_statuses:
  "\<forall>r \<in> set (fst (fuzz_registers dev h g p ip count iterations)). is_status_tag (Status r)"
proof
  fix r assume r: "r \<in> set (fst (fuzz_registers dev h g p ip count iterations))"
  obtain rs p' h' where run: "fuzz_registers dev h g p ip count iterations = (rs, p', h')"
    by (cases "fuzz_registers dev h g p ip count iterations")
  then have loop: "fuzz_registers_loop dev ip count g (range_list 0 iterations 1) [] p h = (rs, p', h')"
    by (simp add: fuzz_registers_def)
  have "fuzz_inv dev h [] h" by (simp add: fuzz_inv_def)
  from fuzz_loop_props [OF loop this] have inv: "fuzz_inv dev h rs h'" by simp
  from r run obtain i where "i < length rs" and "rs ! i = r" by (auto simp: in_set_conv_nth)
  with inv have "Status r = status_of (dev (h @ map write_of (take i rs)) (write_of r))"
    by (auto simp: fuzz_inv_def)
  then show "is_status_tag (Status r)" by (simp add: status_of_is_status_tag)
qed

lemma fingerprint_device_status:
  obtains r h' where "fingerprint_device dev net h ip = Inr (r, h')"
    and "field r ''Status'' = Some (Str ''OK'')"
proof (cases "identification_failed dev h")
  case True
  obtain patterns b h' where
    fb: "fallback_fingerprint dev net (h @ [Read_device_information]) ip =
        Inr ([(''Host'', Str ip), (''Type'', Str ''fallback_fingerprint''), (''Status'', Str ''OK''),
              (''Banner'', Str b), (''RegisterSample'', Str_of_results patterns)], h')"
    by (rule fallback_fingerprint_record)
  with True have "fingerprint_device dev net h ip =
        Inr ([(''Host'', Str ip), (''Type'', Str ''fallback_fingerprint''), (''Status'', Str ''OK''),
              (''Banner'', Str b), (''RegisterSample'', Str_of_results patterns)], h')"
    using fingerprint_device_failed [of dev h net ip] by simp
  then show ?thesis by (rule that) (simp add: field_def)
next
  case False
  then obtain response where
    "dev h Read_device_information = Returns response" and
    run: "fingerprint_device dev net h ip =
           Inr (add_device_fields
                  [(''Host'', Str ip), (''Type'', Str ''device_info''), (''Status'', Str ''OK'')]
                  (information response), h @ [Read_device_information])"
    by (rule fingerprint_device_identified)
  show ?thesis
    by (rule that [OF run]) (simp add: field_add_device_fields, simp add: field_def)
qed

lemma recon_fingerprint_device_status:
  assumes "fst (recon_fingerprint_device dev h ip port) = Some r"
  shows "\<exists>s. field r ''Status'' = Some (Str s) \<and> is_status_tag s"
proof (cases "dev h Read_device_information")
  case (Raises e)
  with assms have "field r ''Status'' = Some (Str (''Exception: '' @ e))"
    by (auto simp: recon_fingerprint_device_def Let_def field_def)
  then show ?thesis using exception_is_status_tag by blast
next
  case (Returns response)
  with assms have "\<not> isError response"
    and r: "r = dict_set (add_device_fields
        [(''Host'', Str ip), (''Port'', Num port), (''Type'', Str ''device_info''),
         (''Status'', Str ''OK'')] (information response))
        ''Vendor'' (Str (identify_vendor (information response)))"
    by (auto simp: recon_fingerprint_device_def Let_def split: if_splits)
  have "field r ''Status'' = Some (Str ''OK'')" unfolding r
    by (simp add: field_dict_set_other field_add_device_fields) (simp add: field_def)
  then show ?thesis by (simp add: is_status_tag_def)
qed

text \<open>
  C3, as the code has it. A register scan and a coil scan with a step other than zero
  return without raising, and with step zero they raise \<open>ValueError\<close> before any
  read. The fuzzer and the fingerprint of modbus\_toolkit always return. The
  fingerprint of modbusrecon\_toolkit always returns, with no record when the request
  gets an error response. Every probe result and every fingerprint record so produced
  has a status that is \<open>OK\<close>, \<open>Error\<close> or \<open>Exception:\<close> followed by a text.
\<close>

theorem every_status_is_a_status_tag:
  "(step \<noteq> 0 \<longrightarrow>
      (\<exists>rs h'. scan_registers dev h ip start end step reg_type = Inr (rs, h') \<and>
         (\<forall>r \<in> set rs. is_status_tag (Status r))) \<and>
      (\<exists>cs h'. scan_coils dev h ip start end step = Inr (cs, h') \<and>
         (\<forall>r \<in> set cs. is_status_tag (Status r)))) \<and>
   (step = 0 \<longrightarrow>
      scan_registers dev h ip start end step reg_type = Inl ValueError \<and>
      scan_coils dev h ip start end step = Inl ValueError) \<and>
   (\<forall>r \<in> set (fst (fuzz_registers dev h g p ip count iterations)). is_status_tag (Status r)) \<and>
   (\<exists>r h'. fingerprint_device dev net h ip = Inr (r, h') \<and>
      field r ''Status'' = Some (Str ''OK'') \<and> is_status_tag ''OK'') \<and>
   (fst (recon_fingerprint_device dev h ip port) = None \<longleftrightarrow>
      (\<exists>response. dev h Read_device_information = Returns response \<and> isError response)) \<and>
   (\<forall>r. fst (recon_fingerprint_device dev h ip port) = Some r \<longrightarrow>
      (\<exists>s. field r ''Status'' = Some (Str s) \<and> is_status_tag s))"
proof (intro conjI impI allI)
  assume nz: "step \<noteq> 0"
  obtain rs h' where "scan_registers dev h ip start end step reg_type = Inr (rs, h')"
    and "\<forall>r \<in> set rs. is_status_tag (Status r)"
    using nz by (rule scan_registers_statuses)
  then show "\<exists>rs h'. scan_registers dev h ip start end step reg_type = Inr (rs, h') \<and>
         (\<forall>r \<in> set rs. is_status_tag (Status r))"
    by (intro exI [of _ rs] exI [of _ h']) simp
  obtain cs h'' where "scan_coils dev h ip start end step = Inr (cs, h'')"
    and "\<forall>r \<in> set cs. is_status_tag (Status r)"
    using nz by (rule scan_coils_statuses)
  then show "\<exists>cs h'. scan_coils dev h ip start end step = Inr (cs, h') \<and>
         (\<forall>r \<in> set cs. is_status_tag (Status r))"
    by (intro exI [of _ cs] exI [of _ h'']) simp
next
  assume "step = 0"
  then show "scan_registers dev h ip start end step reg_type = Inl ValueError"
    and "scan_coils dev h ip start end step = Inl ValueError"
    by (simp_all add: scan_registers_def scan_coils_def py_range_def)
next
  show "\<forall>r \<in> set (fst (fuzz_registers dev h g p ip count iterations)). is_status_tag (Status r)"
    by (rule fuzz_registers_statuses)
next
  obtain r h' where "fingerprint_device dev net h ip = Inr (r, h')"
    and "field r ''Status'' = Some (Str ''OK'')"
    by (rule fingerprint_device_status)
  then show "\<exists>r h'. fingerprint_device dev net h ip = Inr (r, h') \<and>
      field r ''Status'' = Some (Str ''OK'') \<and> is_status_tag ''OK''"
    by (intro exI [of _ r] exI [of _ h']) (simp add: is_status_tag_def)
next
  show "fst (recon_fingerprint_device dev h ip port) = None \<longleftrightarrow>
      (\<exists>response. dev h Read_device_information = Returns response \<and> isError response)"
    by (auto simp: recon_fingerprint_device_def Let_def split: outcome.splits)
next
  fix r
  assume "fst (recon_fingerprint_device dev h ip port) = Some r"
  then show "\<exists>s. field r ''Status'' = Some (Str s) \<and> is_status_tag s"
    by (rule recon_fingerprint_device_status)
qed

theorem every_status_is_a_status_tag_witness:
  "(2 :: int) \<noteq> 0 \<and>
   (\<exists>rs h'. scan_registers flaky_device [] ''10.0.0.1'' 0 6 2 ''holding'' = Inr (rs, h') \<and>
      list_all (\<lambda>r. is_status_tag (Status r)) rs) \<and>
   is_status_tag ''Exception: timed out'' \<and>
   fst (recon_fingerprint_device dead_device [] ''10.0.0.1'' 502) =
     Some [(''Host'', Str ''10.0.0.1''), (''Port'', Num 502), (''Type'', Str ''device_info''),
           (''Status'', Str ''Exception: timed out'')]"
proof -
  have nz: "(2 :: int) \<noteq> 0" by simp
  note all = every_status_is_a_status_tag [of 2 flaky_device "[]" "''10.0.0.1''" 0 6 "''holding''"
      sample_rng 0 3 1 echo_network 502]
  from all [THEN conjunct1, THEN mp, OF nz, THEN conjunct1] obtain rs h' where
    "scan_registers flaky_device [] ''10.0.0.1'' 0 6 2 ''holding'' = Inr (rs, h')"
    and "\<forall>r \<in> set rs. is_status_tag (Status r)"
    by (elim exE conjE)
  then have scan: "\<exists>rs h'. scan_registers flaky_device [] ''10.0.0.1'' 0 6 2 ''holding'' = Inr (rs, h') \<and>
      list_all (\<lambda>r. is_status_tag (Status r)) rs"
    by (intro exI [of _ rs] exI [of _ h']) (simp add: list_all_iff)
  have run: "fst (recon_fingerprint_device dead_device [] ''10.0.0.1'' 502) =
     Some [(''Host'', Str ''10.0.0.1''), (''Port'', Num 502), (''Type'', Str ''device_info''),
           (''Status'', Str ''Exception: timed out'')]"
    by (simp add: recon_fingerprint_device_def dead_device_def Let_def)
  have "\<forall>r. fst (recon_fingerprint_device dead_device [] ''10.0.0.1'' 502) = Some r \<longrightarrow>
      (\<exists>s. field r ''Status'' = Some (Str s) \<and> is_status_tag s)"
    by (rule every_status_is_a_status_tag [of 2 dead_device "[]" "''10.0.0.1''" 0 6 "''holding''"
      sample_rng 0 3 1 echo_network 502, THEN conjunct2, THEN conjunct2, THEN conjunct2,
      THEN conjunct2, THEN conjunct2])
  with run have "\<exists>s. field [(''Host'', Str ''10.0.0.1''), (''Port'', Num 502),
      (''Type'', Str ''device_info''), (''Status'', Str ''Exception: timed out'')] ''Status'' =
        Some (Str s) \<and> is_status_tag s"
    by simp
  then have "is_status_tag ''Exception: timed out''" by (simp add: field_def)
  with nz scan run show ?thesis by (intro conjI)
qed

text \<open>
  The claim as the specification states it, for every probe operation, fails on a
  scan with step zero, which raises \<open>ValueError\<close> past the scan, and on the
  fingerprint of modbusrecon\_toolkit against a device that answers with an error
  response, which gives no record and so no status.
\<close>

theorem probe_without_status_counterexample:
  "scan_coils flaky_device [] ''10.0.0.1'' 0 100 0 = Inl ValueError \<and>
   recon_fingerprint_device error_device [] ''10.0.0.1'' 502 = (None, [Read_device_information])"
  by (simp add: scan_coils_def py_range_def recon_fingerprint_device_def error_device_def Let_def)

section \<open>Sessions of the liveness checks\<close>

text \<open>
  The liveness check of modbus\_toolkit leaves its session open exactly when it
  reports the host as live; the one of modbusrecon\_toolkit leaves the session of a
  port open exactly when the read on that port raised.
\<close>

lemma check_modbus_open_iff_live:
  assumes "check_modbus cn dev ip port = Inr (res, es)"
  shows "session_open es \<longleftrightarrow> res \<noteq> None"
  using assms
  by (auto simp: check_modbus_def connect_def session_open_def
      split: outcome.splits if_splits)

lemma recon_check_modbus_open_iff_raised:
  assumes "(port, es) \<in> set (snd (recon_check_modbus env ip ports sessions))"
    and "(port, es) \<notin> set sessions"
  shows "session_open es \<longleftrightarrow>
     fst (env port) = Returns True \<and> (\<exists>e. snd (env port) [] (Read_coils 0 1) = Raises e)"
  using assms
proof (induction ports arbitrary: sessions)
  case Nil
  then show ?case by simp
next
  case (Cons p ports)
  show ?case
  proof (cases "fst (env p)")
    case (Raises e)
    with Cons.prems Cons.IH [of "sessions @ [(p, [])]"] show ?thesis
      by (cases "(port, es) = (p, [])") (auto simp: session_open_def)
  next
    case (Returns connected)
    show ?thesis
    proof (cases connected)
      case False
      with Returns Cons.prems Cons.IH [of "sessions @ [(p, [Ev_connect False])]"] show ?thesis
        by (cases "(port, es) = (p, [Ev_connect False])") (auto simp: session_open_def)
    next
      case True
      show ?thesis
      proof (cases "snd (env p) [] (Read_coils 0 1)")
        case (Raises e)
        with True Returns Cons.prems
          Cons.IH [of "sessions @ [(p, [Ev_connect True, Ev_call (Read_coils 0 1)])]"]
        show ?thesis
          by (cases "(port, es) = (p, [Ev_connect True, Ev_call (Read_coils 0 1)])")
            (auto simp: session_open_def)
      next
        case (Returns resp)
        with True \<open>fst (env p) = Returns connected\<close> Cons.prems
          Cons.IH [of "sessions @ [(p, [Ev_connect True, Ev_call (Read_coils 0 1), Ev_close])]"]
        show ?thesis
          by (cases "(port, es) = (p, [Ev_connect True, Ev_call (Read_coils 0 1), Ev_close])")
            (auto simp: session_open_def split: if_splits)
      qed
    qed
  qed
qed

text \<open>
  C6. The session a worker opens is closed on every exit path. The code does not:
  against a host that accepts the connection and answers the read, \<open>check_modbus\<close> of
  modbus\_toolkit returns the address without closing the client, and against a host
  that accepts the connection and on which the read raises, \<open>check_modbus\<close> of
  modbusrecon\_toolkit goes on without closing the client. Each toolkit closes the
  client on the path the other one misses.
\<close>

theorem check_modbus_leaves_session_open:
  "check_modbus (Returns True) siemens_device ''10.0.0.1'' 502 =
     Inr (Some ''10.0.0.1'', [Ev_connect True, Ev_call (Read_coils 0 1)]) \<and>
   session_open [Ev_connect True, Ev_call (Read_coils 0 1)] \<and>
   recon_check_modbus (\<lambda>port. (Returns True, dead_device)) ''10.0.0.1'' [502] [] =
     (None, [(502, [Ev_connect True, Ev_call (Read_coils 0 1)])]) \<and>
   recon_check_modbus (\<lambda>port. (Returns True, siemens_device)) ''10.0.0.1'' [502] [] =
     (Some (''10.0.0.1'', 502), [(502, [Ev_connect True, Ev_call (Read_coils 0 1), Ev_close])]) \<and>
   \<not> session_open [Ev_connect True, Ev_call (Read_coils 0 1), Ev_close]"
  by (simp add: check_modbus_def connect_def siemens_device_def dead_device_def session_open_def)

section \<open>The key sets of the result sequence\<close>

text \<open>
  For every pair of targets of modbusrecon\_toolkit of which one raises on the
  identification request and the other answers it, the two records differ in the key
  \<open>Vendor\<close>.
\<close>

lemma str_int_0_1: "str_int 0 = ''0''" "str_int 1 = ''1''"
  by (simp_all add: str_int_def str_nat.simps digit_char_def)

lemma recon_run:
  "recon_main_results
     [(True, dead_device, ''10.0.0.1'', 502), (True, siemens_device, ''10.0.0.2'', 502)] [] =
   [[(''Host'', Str ''10.0.0.1''), (''Port'', Num 502), (''Type'', Str ''device_info''),
     (''Status'', Str ''Exception: timed out'')],
    [(''Host'', Str ''10.0.0.2''), (''Port'', Num 502), (''Type'', Str ''device_info''),
     (''Status'', Str ''OK''), (''device_0'', Str ''SIEMENS AG''), (''device_1'', Str ''6ES7 315''),
     (''Vendor'', Str ''Siemens S7'')]]"
  by (simp add: recon_fingerprint_device_def dead_device_def siemens_device_def Let_def
      add_device_fields_def str_int_0_1 DEVICE_SIGNATURES_def sig_matches_def
      lower_signatures lower_samples)


lemma keys_dict_set: "set (keys (dict_set d k v)) = insert k (set (keys d))"
  by (induction d k v rule: dict_set.induct) (auto simp: keys_def)

lemma recon_records_differ:
  assumes "dev1 h1 Read_device_information = Raises e"
    and "dev2 h2 Read_device_information = Returns resp" and "\<not> isError resp"
  shows "\<exists>r1 r2. fst (recon_fingerprint_device dev1 h1 ip1 port1) = Some r1 \<and>
     fst (recon_fingerprint_device dev2 h2 ip2 port2) = Some r2 \<and>
     ''Vendor'' \<in> set (keys r2) \<and> ''Vendor'' \<notin> set (keys r1)"
  using assms
  by (simp add: recon_fingerprint_device_def Let_def keys_dict_set) (simp add: keys_def)

lemma toolkit_run:
  "map keys (toolkit_main_results
     [(True, siemens_device, echo_network, ''10.0.0.1''),
      (True, error_device, echo_network, ''10.0.0.2'')] []) =
   [[''Host'', ''Type'', ''Status'', ''device_0'', ''device_1''],
    [''Host'', ''Type'', ''Status'', ''Banner'', ''RegisterSample'']]"
proof -
  obtain patterns b h' where
    "fallback_fingerprint error_device echo_network ([] @ [Read_device_information]) ''10.0.0.2'' =
       Inr ([(''Host'', Str ''10.0.0.2''), (''Type'', Str ''fallback_fingerprint''),
             (''Status'', Str ''OK''), (''Banner'', Str b),
             (''RegisterSample'', Str_of_results patterns)], h')"
    by (rule fallback_fingerprint_record)
  moreover have "identification_failed error_device []"
    by (simp add: identification_failed_def error_device_def)
  ultimately have second: "fingerprint_device error_device echo_network [] ''10.0.0.2'' =
       Inr ([(''Host'', Str ''10.0.0.2''), (''Type'', Str ''fallback_fingerprint''),
             (''Status'', Str ''OK''), (''Banner'', Str b),
             (''RegisterSample'', Str_of_results patterns)], h')"
    using fingerprint_device_failed [of error_device "[]" echo_network "''10.0.0.2''"] by simp
  have first: "fingerprint_device siemens_device echo_network [] ''10.0.0.1'' =
       Inr ([(''Host'', Str ''10.0.0.1''), (''Type'', Str ''device_info''), (''Status'', Str ''OK''),
             (''device_0'', Str ''SIEMENS AG''), (''device_1'', Str ''6ES7 315'')],
            [Read_device_information])"
    by (simp add: fingerprint_device_def siemens_device_def Let_def add_device_fields_def
        str_int_0_1)
  show ?thesis by (simp add: first second keys_def)
qed

text \<open>
  C7. Every record of a result sequence handed to the report has the key set of the
  first record. The code does not establish this. With two targets, the first
  raising on the identification request and the second answering it, the sequence of
  modbusrecon\_toolkit holds a record with four keys followed by one with seven, and
  \<open>save_csv\<close>, which takes its field names from the first record, raises
  \<open>ValueError\<close> on the second. With a target that answers the identification
  request and one that gives an error response, the sequence of modbus\_toolkit
  holds a \<open>device_info\<close> record followed by a fallback record, with different keys.
\<close>

theorem report_records_differ_in_keys:
  "map keys (recon_main_results
     [(True, dead_device, ''10.0.0.1'', 502), (True, siemens_device, ''10.0.0.2'', 502)] []) =
     [[''Host'', ''Port'', ''Type'', ''Status''],
      [''Host'', ''Port'', ''Type'', ''Status'', ''device_0'', ''device_1'', ''Vendor'']] \<and>
   ''Vendor'' \<in> set [''Host'', ''Port'', ''Type'', ''Status'', ''device_0'', ''device_1'', ''Vendor''] \<and>
   ''Vendor'' \<notin> set [''Host'', ''Port'', ''Type'', ''Status''] \<and>
   save_csv (recon_main_results
     [(True, dead_device, ''10.0.0.1'', 502), (True, siemens_device, ''10.0.0.2'', 502)] []) =
     Inl ValueError \<and>
   map keys (toolkit_main_results
     [(True, siemens_device, echo_network, ''10.0.0.1''),
      (True, error_device, echo_network, ''10.0.0.2'')] []) =
     [[''Host'', ''Type'', ''Status'', ''device_0'', ''device_1''],
      [''Host'', ''Type'', ''Status'', ''Banner'', ''RegisterSample'']] \<and>
   ''Banner'' \<in> set [''Host'', ''Type'', ''Status'', ''Banner'', ''RegisterSample''] \<and>
   ''Banner'' \<notin> set [''Host'', ''Type'', ''Status'', ''device_0'', ''device_1'']"
proof -
  have k: "map keys (recon_main_results
     [(True, dead_device, ''10.0.0.1'', 502), (True, siemens_device, ''10.0.0.2'', 502)] []) =
     [[''Host'', ''Port'', ''Type'', ''Status''],
      [''Host'', ''Port'', ''Type'', ''Status'', ''device_0'', ''device_1'', ''Vendor'']]"
    unfolding recon_run by (simp add: keys_def)
  have row1: "csv_row [''Host'', ''Port'', ''Type'', ''Status'']
      [(''Host'', Str ''10.0.0.1''), (''Port'', Num 502), (''Type'', Str ''device_info''),
       (''Status'', Str ''Exception: timed out'')] =
      Inr [Str ''10.0.0.1'', Num 502, Str ''device_info'', Str ''Exception: timed out'']"
    by (simp add: csv_row_def keys_def)
  have row2: "csv_row [''Host'', ''Port'', ''Type'', ''Status'']
      [(''Host'', Str ''10.0.0.2''), (''Port'', Num 502), (''Type'', Str ''device_info''),
       (''Status'', Str ''OK''), (''device_0'', Str ''SIEMENS AG''),
       (''device_1'', Str ''6ES7 315''), (''Vendor'', Str ''Siemens S7'')] = Inl ValueError"
    by (simp add: csv_row_def keys_def)
  have c: "save_csv (recon_main_results
     [(True, dead_device, ''10.0.0.1'', 502), (True, siemens_device, ''10.0.0.2'', 502)] []) =
     Inl ValueError"
    unfolding recon_run by (simp add: save_csv_def keys_def row1 row2)
  have m1: "''Vendor'' \<in> set [''Host'', ''Port'', ''Type'', ''Status'', ''device_0'', ''device_1'', ''Vendor'']"
    and m2: "''Vendor'' \<notin> set [''Host'', ''Port'', ''Type'', ''Status'']"
    and m3: "''Banner'' \<in> set [''Host'', ''Type'', ''Status'', ''Banner'', ''RegisterSample'']"
    and m4: "''Banner'' \<notin> set [''Host'', ''Type'', ''Status'', ''device_0'', ''device_1'']"
    by simp_all
  from k m1 m2 c toolkit_run m3 m4 show ?thesis by (intro conjI)
qed

section \<open>The hosts of a subnet\<close>

lemma range_list_unit_set: "set (range_list a b 1) = {x. a \<le> x \<and> x < b}"
  using range_list_pos_set [of 1 a b] by simp

lemma range_list_unit_length: "int (length (range_list a b 1)) = max 0 (b - a)"
  by (simp add: range_list_def range_len_def)

lemma range_list_two: "range_list a (a + 2) 1 = [a, a + 1]"
  by (simp add: range_list_def range_len_def upt_conv_Cons)

lemma IPv4Network_fields:
  assumes "IPv4Network address prefix = Inr net"
  shows "network_address net = address" and "prefixlen net = prefix" and "prefix \<le> 32"
    and "0 \<le> address" and "address < 2 ^ 32" and "address mod 2 ^ (32 - prefix) = 0"
  using assms by (auto simp: IPv4Network_def split: if_splits)

text \<open>
  C4, as the code has it. For every valid subnet with a prefix length of at most 30,
  the expansion yields exactly the addresses strictly between the network address
  and the broadcast address, in ascending order: as many as the subnet has addresses,
  minus two, and neither the network address nor the broadcast address. For a prefix
  length of 31 it yields the network address and the broadcast address, and for a
  prefix length of 32 the one address of the subnet, which is both.
\<close>

theorem hosts_of_subnet:
  assumes "IPv4Network address prefix = Inr net"
  shows "network_address net = address \<and> prefixlen net = prefix \<and>
     broadcast_address net = address + 2 ^ (32 - prefix) - 1 \<and>
     (prefix \<le> 30 \<longrightarrow>
        int (length (hosts net)) = 2 ^ (32 - prefix) - 2 \<and>
        sorted_wrt (<) (hosts net) \<and>
        set (hosts net) = {a. network_address net < a \<and> a < broadcast_address net} \<and>
        network_address net \<notin> set (hosts net) \<and>
        broadcast_address net \<notin> set (hosts net)) \<and>
     (prefix = 31 \<longrightarrow> hosts net = [network_address net, broadcast_address net]) \<and>
     (prefix = 32 \<longrightarrow> hosts net = [network_address net] \<and>
        broadcast_address net = network_address net)"
proof -
  note f = IPv4Network_fields [OF assms]
  have bc: "broadcast_address net = address + 2 ^ (32 - prefix) - 1"
    by (simp add: broadcast_address_def f)
  have small: "int (length (hosts net)) = 2 ^ (32 - prefix) - 2 \<and>
        sorted_wrt (<) (hosts net) \<and>
        set (hosts net) = {a. network_address net < a \<and> a < broadcast_address net} \<and>
        network_address net \<notin> set (hosts net) \<and>
        broadcast_address net \<notin> set (hosts net)" if p: "prefix \<le> 30"
  proof -
    from p have h: "hosts net = range_list (address + 1) (address + 2 ^ (32 - prefix) - 1) 1"
      by (simp add: hosts_def f bc)
    have "(2::int) ^ 2 \<le> 2 ^ (32 - prefix)"
      using p by (intro power_increasing) simp_all
    then have big: "(4::int) \<le> 2 ^ (32 - prefix)" by simp
    have "int (length (hosts net)) = 2 ^ (32 - prefix) - 2"
      unfolding h range_list_unit_length using big by simp
    moreover have "sorted_wrt (<) (hosts net)"
      unfolding h by (rule range_list_sorted) simp
    moreover have s: "set (hosts net) = {a. network_address net < a \<and> a < broadcast_address net}"
      unfolding h range_list_unit_set by (auto simp: f bc)
    moreover from s have "network_address net \<notin> set (hosts net)"
      and "broadcast_address net \<notin> set (hosts net)" by simp_all
    ultimately show ?thesis by blast
  qed
  have p31: "hosts net = [network_address net, broadcast_address net]" if "prefix = 31"
    using that range_list_two [of address] by (simp add: hosts_def f bc add.commute)
  have p32: "hosts net = [network_address net] \<and> broadcast_address net = network_address net"
    if "prefix = 32"
    using that by (simp add: hosts_def f bc)
  from f(1,2) bc small p31 p32 show ?thesis by blast
qed

lemma slash_30_network:
  "IPv4Network 167772160 30 = Inr \<lparr>network_address = 167772160, prefixlen = 30\<rparr>"
  by (simp add: IPv4Network_def)

theorem hosts_of_subnet_witness:
  "IPv4Network 167772160 30 = Inr \<lparr>network_address = 167772160, prefixlen = 30\<rparr> \<and>
   (30 :: nat) \<le> 30 \<and>
   int (length (hosts \<lparr>network_address = 167772160, prefixlen = 30\<rparr>)) = 2 ^ (32 - 30) - 2 \<and>
   hosts \<lparr>network_address = 167772160, prefixlen = 30\<rparr> = [167772161, 167772162] \<and>
   broadcast_address \<lparr>network_address = 167772160, prefixlen = 30\<rparr> = 167772163"
proof -
  have le: "(30 :: nat) \<le> 30" by simp
  from hosts_of_subnet [OF slash_30_network, THEN conjunct2, THEN conjunct2, THEN conjunct2,
      THEN conjunct1, THEN mp, OF le, THEN conjunct1]
  have n: "int (length (hosts \<lparr>network_address = 167772160, prefixlen = 30\<rparr>)) =
      2 ^ (32 - 30) - 2" .
  have h: "hosts \<lparr>network_address = 167772160, prefixlen = 30\<rparr> = [167772161, 167772162]"
    by (simp add: hosts_def broadcast_address_def range_list_def range_len_def upt_conv_Cons)
  have b: "broadcast_address \<lparr>network_address = 167772160, prefixlen = 30\<rparr> = 167772163"
    by (simp add: broadcast_address_def)
  from slash_30_network le n h b show ?thesis by (intro conjI)
qed

text \<open>
  The claim as the specification states it, for every valid subnet, fails on
  \<open>10.0.0.0/31\<close>: the subnet has two addresses, so two less is none, and the
  expansion yields both, the network address and the broadcast address.
\<close>

theorem hosts_of_slash_31_counterexample:
  "IPv4Network 167772160 31 = Inr \<lparr>network_address = 167772160, prefixlen = 31\<rparr> \<and>
   broadcast_address \<lparr>network_address = 167772160, prefixlen = 31\<rparr> = 167772161 \<and>
   hosts \<lparr>network_address = 167772160, prefixlen = 31\<rparr> = [167772160, 167772161] \<and>
   IPv4Network 167772160 32 = Inr \<lparr>network_address = 167772160, prefixlen = 32\<rparr> \<and>
   hosts \<lparr>network_address = 167772160, prefixlen = 32\<rparr> = [167772160]"
  by (simp add: IPv4Network_def hosts_def broadcast_address_def range_list_def range_len_def
      upt_conv_Cons)

end
